theory Spec2Isabelle
  imports Main "HOL-Library.Sublist"
begin

section \<open>evtrack, the UI module (src/js/src/trackui.js)\<close>

text \<open>
  \<^verbatim>\<open>TrackUI\<close> is one global object: its settings, the session id \<^verbatim>\<open>uid\<close>, the
  sampling clock \<^verbatim>\<open>time\<close> and the buffer \<^verbatim>\<open>info\<close>. Its methods are callbacks of the
  browser: event listeners, one \<^verbatim>\<open>setTimeout\<close>, \<^verbatim>\<open>setInterval\<close>s, the callback of
  an Ajax request and the unload hook. Each method is a function from state to state
  here; what the browser holds for the page (the armed timers, the init requests whose
  callback has not run yet, the requests handed to the transport) is part of the state, and
  every reading of the environment (the clock, the page metrics, the event object after
  \<^verbatim>\<open>TrackLib.Events.fix\<close>, the XPath of the target) is an argument.

  Numbers are JavaScript numbers in the source. The embedding uses \<open>int\<close> for them:
  timestamps from \<^verbatim>\<open>Date.getTime()\<close>, pixel coordinates and the settings are integers
  far below \<open>2^53\<close>, where the two agree. The one number that comes from outside is the id
  in the init response, which \<^verbatim>\<open>parseInt\<close> rounds to a double: that rounding and the way
  such a number prints are modelled. A string is a list of code units below 256.
\<close>

subsection \<open>JavaScript values\<close>

text \<open>
  The result of \<^verbatim>\<open>parseInt\<close>: a double with an integer value, \<^verbatim>\<open>NaN\<close>, or an infinity
  (a digit run beyond the largest double).
\<close>

datatype jsnum = Num int | NaN | PosInfinity | NegInfinity

text \<open>\<^verbatim>\<open>if (TrackUI.uid)\<close>: \<^verbatim>\<open>0\<close> and \<^verbatim>\<open>NaN\<close> are falsy, every other number is truthy.\<close>

fun truthy :: "jsnum \<Rightarrow> bool" where
  "truthy (Num n) = (n \<noteq> 0)"
| "truthy NaN = False"
| "truthy PosInfinity = True"
| "truthy NegInfinity = True"

text \<open>The digit \<open>d mod 16\<close> as a character, upper case as \<^verbatim>\<open>escape\<close> writes it.\<close>

definition hex_char :: "nat \<Rightarrow> char" where
  "hex_char d = ''0123456789ABCDEF'' ! (d mod 16)"

definition digit_char :: "nat \<Rightarrow> char" where
  "digit_char d = hex_char (d mod 10)"

fun string_of_nat :: "nat \<Rightarrow> string" where
  "string_of_nat n =
     (if n < 10 then [digit_char n] else string_of_nat (n div 10) @ [digit_char (n mod 10)])"

declare string_of_nat.simps [simp del]

text \<open>Number to string, as \<^verbatim>\<open>"" + n\<close> does for an integer (below \<open>10^21\<close>).\<close>

definition string_of_int :: "int \<Rightarrow> string" where
  "string_of_int i = (if i < 0 then CHR ''-'' # string_of_nat (nat (- i)) else string_of_nat (nat i))"

subsubsection \<open>Doubles\<close>

text \<open>The number of binary digits of \<open>n\<close>.\<close>

fun bitlen :: "nat \<Rightarrow> nat" where
  "bitlen n = (if n = 0 then 0 else Suc (bitlen (n div 2)))"

declare bitlen.simps [simp del]

text \<open>
  The double nearest to the integer \<open>v\<close>: \<open>v\<close> itself up to 53 binary digits, beyond them
  the nearest multiple of the power of two that leaves 53, a tie going to the even one.
  \<open>None\<close> when the result is past the largest double.
\<close>

definition nearest_double :: "nat \<Rightarrow> nat option" where
  "nearest_double v =
     (if bitlen v \<le> 53 then Some v
      else let sh = bitlen v - 53; q = v div 2 ^ sh; r = v mod 2 ^ sh; h = 2 ^ (sh - 1);
               w = (if h < r \<or> (r = h \<and> odd q) then Suc q else q) * 2 ^ sh
           in if 2 ^ 1024 \<le> w then None else Some w)"

text \<open>The Number for a sign and a magnitude.\<close>

definition to_number :: "bool \<Rightarrow> nat \<Rightarrow> jsnum" where
  "to_number neg v =
     (case nearest_double v of
        None \<Rightarrow> if neg then NegInfinity else PosInfinity
      | Some w \<Rightarrow> Num (if neg then - int w else int w))"

text \<open>
  \<^verbatim>\<open>Number::toString\<close> of a double \<open>m\<close> past \<open>2^53\<close>: the fewest significant digits that
  still round to \<open>m\<close>, the closest such value when two have as few. \<open>pick m p\<close> looks
  among the multiples of \<open>p\<close> next to \<open>m\<close>.
\<close>

definition pick :: "nat \<Rightarrow> nat \<Rightarrow> nat option" where
  "pick m p =
     (let lo = (m div p) * p; hi = lo + p;
          okl = (nearest_double lo = Some m); okh = (nearest_double hi = Some m)
      in if okl \<and> okh
         then (if m - lo < hi - m then Some lo else if hi - m < m - lo then Some hi
               else if even (lo div p) then Some lo else Some hi)
         else if okl then Some lo else if okh then Some hi else None)"

fun first_pick :: "nat \<Rightarrow> nat list \<Rightarrow> nat" where
  "first_pick m [] = m"
| "first_pick m (p # ps) = (case pick m p of Some c \<Rightarrow> c | None \<Rightarrow> first_pick m ps)"

definition shortest :: "nat \<Rightarrow> nat" where
  "shortest m =
     first_pick m (map (\<lambda>k. 10 ^ (length (string_of_nat m) - k)) [1..<length (string_of_nat m)])"

text \<open>Below \<open>10^21\<close> the digits are written out, from there on as \<^verbatim>\<open>d.ddde+n\<close>.\<close>

definition string_of_double :: "nat \<Rightarrow> string" where
  "string_of_double m =
     (let c = shortest m; ds = string_of_nat c
      in if c < 10 ^ 21 then ds
         else (case rev (dropWhile (\<lambda>c. c = CHR ''0'') (rev ds)) of
                 [] \<Rightarrow> ds
               | d # frac \<Rightarrow> d # (if frac = [] then [] else CHR ''.'' # frac) @ ''e+''
                              @ string_of_nat (length ds - 1)))"

fun string_of_jsnum :: "jsnum \<Rightarrow> string" where
  "string_of_jsnum (Num n) =
     (if \<bar>n\<bar> < 2 ^ 53 then string_of_int n
      else (if n < 0 then ''-'' else []) @ string_of_double (nat \<bar>n\<bar>))"
| "string_of_jsnum NaN = ''NaN''"
| "string_of_jsnum PosInfinity = ''Infinity''"
| "string_of_jsnum NegInfinity = ''-Infinity''"

text \<open>
  A property that may be absent: \<open>None\<close> is \<^verbatim>\<open>undefined\<close>, which concatenates as the
  string \<^verbatim>\<open>undefined\<close>.
\<close>

fun string_of_prop :: "int option \<Rightarrow> string" where
  "string_of_prop None = ''undefined''"
| "string_of_prop (Some n) = string_of_int n"

text \<open>\<^verbatim>\<open>Array.prototype.toString\<close>, which \<^verbatim>\<open>"&info=" + TrackUI.info\<close> calls: the elements joined by commas.\<close>

fun join_comma :: "string list \<Rightarrow> string" where
  "join_comma [] = []"
| "join_comma [x] = x"
| "join_comma (x # y # ys) = x @ '','' @ join_comma (y # ys)"

subsubsection \<open>parseInt\<close>

text \<open>
  White space that \<^verbatim>\<open>parseInt\<close> skips, among the code units below 256: tab, line feed,
  vertical tab, form feed, carriage return, space and the no-break space U+00A0.
\<close>

definition is_space :: "char \<Rightarrow> bool" where
  "is_space c =
     ((of_char c :: nat) = 32 \<or> (of_char c :: nat) = 160
      \<or> (9 \<le> (of_char c :: nat) \<and> (of_char c :: nat) \<le> 13))"

text \<open>\<open>between lo hi c\<close>: the code of \<open>c\<close> lies in the range of codes from \<open>lo\<close> to \<open>hi\<close>.\<close>

definition between :: "char \<Rightarrow> char \<Rightarrow> char \<Rightarrow> bool" where
  "between lo hi c = ((of_char lo :: nat) \<le> of_char c \<and> (of_char c :: nat) \<le> of_char hi)"

definition is_digit :: "char \<Rightarrow> bool" where
  "is_digit c = between CHR ''0'' CHR ''9'' c"

definition is_hex_digit :: "char \<Rightarrow> bool" where
  "is_hex_digit c = (is_digit c \<or> between CHR ''a'' CHR ''f'' c \<or> between CHR ''A'' CHR ''F'' c)"

definition digit_val :: "char \<Rightarrow> nat" where
  "digit_val c =
     (if is_digit c then of_char c - of_char CHR ''0''
      else if between CHR ''a'' CHR ''f'' c then of_char c - of_char CHR ''a'' + 10
      else of_char c - of_char CHR ''A'' + 10)"

definition digits_val :: "nat \<Rightarrow> string \<Rightarrow> nat" where
  "digits_val radix ds = foldl (\<lambda>a c. a * radix + digit_val c) 0 ds"

text \<open>
  \<^verbatim>\<open>parseInt(response)\<close> with no radix: leading white space is skipped, then an optional
  sign, then \<^verbatim>\<open>0x\<close> or \<^verbatim>\<open>0X\<close> selects radix 16; the longest run of digits of the radix
  that follows is the number, rounded to a double, and \<^verbatim>\<open>NaN\<close> when that run is empty.
  Whatever comes after the digits is ignored. Every digit of the run counts: the licence to
  read a decimal digit after the twentieth as 0 is not taken.
\<close>

fun strip_sign :: "string \<Rightarrow> bool \<times> string" where
  "strip_sign [] = (False, [])"
| "strip_sign (c # cs) =
     (if c = CHR ''-'' then (True, cs) else if c = CHR ''+'' then (False, cs) else (False, c # cs))"

fun strip_prefix :: "string \<Rightarrow> nat \<times> string" where
  "strip_prefix (a # b # cs) =
     (if a = CHR ''0'' \<and> (b = CHR ''x'' \<or> b = CHR ''X'') then (16, cs) else (10, a # b # cs))"
| "strip_prefix cs = (10, cs)"

definition is_radix_digit :: "nat \<Rightarrow> char \<Rightarrow> bool" where
  "is_radix_digit radix c = (if radix = 16 then is_hex_digit c else is_digit c)"

definition parseInt :: "string \<Rightarrow> jsnum" where
  "parseInt s =
     (case strip_sign (dropWhile is_space s) of (neg, s2) \<Rightarrow>
      case strip_prefix s2 of (radix, s3) \<Rightarrow>
        let ds = takeWhile (is_radix_digit radix) s3
        in if ds = [] then NaN
           else to_number neg (digits_val radix ds))"

subsubsection \<open>escape\<close>

definition is_unescaped :: "char \<Rightarrow> bool" where
  "is_unescaped c =
     (is_digit c \<or> between CHR ''a'' CHR ''z'' c \<or> between CHR ''A'' CHR ''Z'' c
      \<or> c \<in> set ''@*_+-./'')"

text \<open>\<^verbatim>\<open>escape(window.location.href)\<close>, on code units below 256.\<close>

definition escape :: "string \<Rightarrow> string" where
  "escape s =
     concat (map (\<lambda>c. if is_unescaped c then [c]
                       else [CHR ''%'', hex_char (of_char c div 16), hex_char (of_char c mod 16)]) s)"

subsection \<open>The data\<close>

record settings =
  postServer :: string
  postInterval :: int
  samplingFreq :: int
  taskName :: string
  layoutType :: string

text \<open>
  The argument of \<^verbatim>\<open>TrackUI.record\<close>: \<open>None\<close> is a property the config does not own, or
  one that is \<^verbatim>\<open>null\<close>.
\<close>

record config =
  cfg_postServer :: "string option"
  cfg_postInterval :: "int option"
  cfg_samplingFreq :: "int option"
  cfg_taskName :: "string option"
  cfg_layoutType :: "string option"

text \<open>
  An event object after \<^verbatim>\<open>TrackLib.Events.fix\<close> (for a touch event, one entry of
  \<^verbatim>\<open>changedTouches\<close>): the properties the handlers read. \<open>xpath\<close> is what
  \<^verbatim>\<open>TrackLib.XPath.getXPath(e.target)\<close> returns; TrackLib is not part of this file.
\<close>

record event =
  ev_id :: "int option"
  ev_type :: string
  pageX :: "int option"
  pageY :: "int option"
  clientX :: "int option"
  clientY :: "int option"
  xpath :: string

text \<open>
  A touch event: its type and \<^verbatim>\<open>changedTouches\<close> (\<open>None\<close> when the property is absent),
  each touch with the reading of \<^verbatim>\<open>new Date().getTime()\<close> that its
  \<^verbatim>\<open>eventHandler\<close> call makes.
\<close>

record touch_event =
  te_type :: string
  changedTouches :: "(event \<times> int) list option"

text \<open>What the handlers read from \<^verbatim>\<open>window\<close>, \<^verbatim>\<open>screen\<close>, \<^verbatim>\<open>document\<close> and \<^verbatim>\<open>TrackLib.Dimension\<close>.\<close>

record page =
  href :: string
  screenw :: int
  screenh :: int
  winw :: int
  winh :: int
  docw :: int
  doch :: int
  body_scrollLeft :: int
  docel_scrollLeft :: int
  body_scrollTop :: int
  docel_scrollTop :: int

text \<open>
  The object literal handed to \<^verbatim>\<open>TrackUI.send\<close>. \<open>callback\<close> says whether
  \<^verbatim>\<open>TrackUI.setUserId\<close> is attached (only \<^verbatim>\<open>initNewData\<close> attaches it).
\<close>

record req =
  async :: bool
  postdata :: string
  callback :: bool

text \<open>
  The request as the transport receives it, with the \<^verbatim>\<open>url\<close> that \<^verbatim>\<open>send\<close> adds.
  \<open>delivered\<close> is not a property of the object: it records what the transport
  (\<^verbatim>\<open>TrackLib.XHR.sendAjaxRequest\<close>, not part of this file) made of the request.
\<close>

record request = req +
  url :: string
  delivered :: bool

text \<open>
  A timer the page has armed, with its delay in milliseconds. The source arms two kinds:
  the \<^verbatim>\<open>setTimeout\<close> of \<^verbatim>\<open>record\<close>, whose function calls \<^verbatim>\<open>initNewData(true)\<close>, and the
  \<^verbatim>\<open>setInterval\<close> of \<^verbatim>\<open>setUserId\<close>, whose function calls \<^verbatim>\<open>appendData(true)\<close>.
\<close>

datatype timer = SetTimeout int | SetInterval int

record trackui =
  settings :: settings
  uid :: jsnum
  time :: int
  info :: "string list"
  timers :: "timer list"
  inflight :: nat
  outbox :: "request list"

text \<open>The object literal: \<^verbatim>\<open>time\<close> is the clock when the script is loaded.\<close>

definition TrackUI :: "int \<Rightarrow> trackui" where
  "TrackUI loaded =
     \<lparr> settings = \<lparr> postServer = ''http://my.server.org/save.script'', postInterval = 30,
                    samplingFreq = 10, taskName = ''evtrack'', layoutType = ''liquid'' \<rparr>,
       uid = Num 0, time = loaded, info = [],
       timers = [], inflight = 0, outbox = [] \<rparr>"

subsection \<open>The methods of TrackUI\<close>

text \<open>
  \<^verbatim>\<open>record(config)\<close>: every setting that the config owns with a value other than
  \<^verbatim>\<open>null\<close> is overridden; the listeners and the unload hook are registered (from then on
  the browser may call the handlers and \<^verbatim>\<open>flush\<close>); one timeout is armed for the first
  \<^verbatim>\<open>initNewData(true)\<close>, after \<^verbatim>\<open>postInterval*1000\<close> milliseconds.
\<close>

definition override :: "'a option \<Rightarrow> 'a \<Rightarrow> 'a" where
  "override c d = (case c of None \<Rightarrow> d | Some v \<Rightarrow> v)"

definition record_fn :: "config \<Rightarrow> trackui \<Rightarrow> trackui" where
  "record_fn cfg s =
     (let st = settings s;
          st' = \<lparr> postServer = override (cfg_postServer cfg) (postServer st),
                  postInterval = override (cfg_postInterval cfg) (postInterval st),
                  samplingFreq = override (cfg_samplingFreq cfg) (samplingFreq st),
                  taskName = override (cfg_taskName cfg) (taskName st),
                  layoutType = override (cfg_layoutType cfg) (layoutType st) \<rparr>
      in s\<lparr> settings := st', timers := timers s @ [SetTimeout (postInterval st' * 1000)] \<rparr>)"

text \<open>
  \<^verbatim>\<open>send(req)\<close> sets the url and hands the request to the transport. \<open>ok\<close> is what the
  transport makes of it; \<^verbatim>\<open>send\<close> returns nothing and its callers read nothing back.
  A request with a callback is in flight until the callback has run. The call is taken to
  return: \<^verbatim>\<open>TrackLib.XHR.sendAjaxRequest\<close> is not part of this file, and the failure of a
  request shows in \<open>ok\<close> and in the response text, not in an exception.
\<close>

definition send :: "bool \<Rightarrow> req \<Rightarrow> trackui \<Rightarrow> trackui" where
  "send ok r s =
     s\<lparr> outbox := outbox s @ [\<lparr> async = async r, postdata = postdata r, callback = callback r,
                                 url = postServer (settings s), delivered = ok \<rparr>],
        inflight := (if callback r then Suc (inflight s) else inflight s) \<rparr>"

definition init_postdata :: "page \<Rightarrow> trackui \<Rightarrow> string" where
  "init_postdata pg s =
     ''url='' @ escape (href pg)
     @ ''&screenw='' @ string_of_int (screenw pg)
     @ ''&screenh='' @ string_of_int (screenh pg)
     @ ''&winw='' @ string_of_int (winw pg)
     @ ''&winh='' @ string_of_int (winh pg)
     @ ''&docw='' @ string_of_int (docw pg)
     @ ''&doch='' @ string_of_int (doch pg)
     @ ''&info='' @ join_comma (info s)
     @ ''&task='' @ taskName (settings s)
     @ ''&layout='' @ layoutType (settings s)
     @ ''&action='' @ ''init''"

definition initNewData :: "bool \<Rightarrow> page \<Rightarrow> bool \<Rightarrow> trackui \<Rightarrow> trackui" where
  "initNewData ok pg a s =
     (send ok \<lparr> async = a, postdata = init_postdata pg s, callback = True \<rparr> s)\<lparr> info := [] \<rparr>"

definition setUserId :: "string \<Rightarrow> trackui \<Rightarrow> trackui" where
  "setUserId response s =
     (let s' = s\<lparr> uid := parseInt response \<rparr>
      in if truthy (uid s')
         then s'\<lparr> timers := timers s' @ [SetInterval (postInterval (settings s') * 1000)] \<rparr>
         else s')"

definition append_postdata :: "trackui \<Rightarrow> string" where
  "append_postdata s =
     ''uid='' @ string_of_jsnum (uid s)
     @ ''&info='' @ join_comma (info s)
     @ ''&action='' @ ''append''"

definition appendData :: "bool \<Rightarrow> bool \<Rightarrow> trackui \<Rightarrow> trackui" where
  "appendData ok a s =
     (send ok \<lparr> async = a, postdata = append_postdata s, callback = False \<rparr> s)\<lparr> info := [] \<rparr>"

text \<open>
  \<^verbatim>\<open>getMousePos\<close>. A coordinate property is truthy when it is present and not 0.
  \<^verbatim>\<open>undefined + n\<close> is \<^verbatim>\<open>NaN\<close>, which like \<^verbatim>\<open>undefined\<close> is falsy and is replaced by 0
  at the end, so \<open>None\<close> stands for both.
\<close>

fun truthy_prop :: "int option \<Rightarrow> bool" where
  "truthy_prop None = False"
| "truthy_prop (Some v) = (v \<noteq> 0)"

fun clamp0 :: "int option \<Rightarrow> int" where
  "clamp0 None = 0"
| "clamp0 (Some v) = (if v = 0 \<or> v < 0 then 0 else v)"

definition getMousePos :: "event \<Rightarrow> page \<Rightarrow> int \<times> int" where
  "getMousePos e pg =
     (let (cx, cy) =
            (if truthy_prop (pageX e) \<or> truthy_prop (pageY e) then (pageX e, pageY e)
             else if truthy_prop (clientX e) \<or> truthy_prop (clientY e)
             then (map_option (\<lambda>v. v + body_scrollLeft pg + docel_scrollLeft pg) (clientX e),
                   map_option (\<lambda>v. v + body_scrollTop pg + docel_scrollTop pg) (clientY e))
             else (Some 0, Some 0))
      in (clamp0 cx, clamp0 cy))"

definition findElement :: "event \<Rightarrow> string" where
  "findElement e = xpath e"

definition fillInfo :: "int option \<Rightarrow> int \<Rightarrow> int \<times> int \<Rightarrow> string \<Rightarrow> string \<Rightarrow> trackui \<Rightarrow> trackui" where
  "fillInfo i t pos ev element s =
     s\<lparr> info := info s @ [string_of_prop i @ '' '' @ string_of_int t @ '' '' @ string_of_int (fst pos)
                           @ '' '' @ string_of_int (snd pos) @ '' '' @ ev @ '' '' @ element] \<rparr>"

text \<open>\<^verbatim>\<open>eventHandler(e)\<close>; \<open>timeNow\<close> is its reading of \<^verbatim>\<open>new Date().getTime()\<close>.\<close>

definition eventHandler :: "page \<Rightarrow> event \<Rightarrow> int \<Rightarrow> trackui \<Rightarrow> trackui" where
  "eventHandler pg e timeNow s =
     (let coords = getMousePos e pg;
          element = findElement e;
          register = (if samplingFreq (settings s) > 0
                      then timeNow - time s \<ge> samplingFreq (settings s) else True)
      in if register
         then (fillInfo (ev_id e) timeNow coords (ev_type e) element s)\<lparr> time := timeNow \<rparr>
         else s)"

definition mouseHandler :: "page \<Rightarrow> event \<Rightarrow> int \<Rightarrow> trackui \<Rightarrow> trackui" where
  "mouseHandler pg e timeNow s = eventHandler pg e timeNow s"

definition keyHandler :: "page \<Rightarrow> event \<Rightarrow> int \<Rightarrow> trackui \<Rightarrow> trackui" where
  "keyHandler pg e timeNow s = eventHandler pg e timeNow s"

definition winHandler :: "page \<Rightarrow> event \<Rightarrow> int \<Rightarrow> trackui \<Rightarrow> trackui" where
  "winHandler pg e timeNow s = eventHandler pg e timeNow s"

text \<open>
  \<^verbatim>\<open>touchHandler(e)\<close>: the loop over \<^verbatim>\<open>changedTouches\<close>, in index order; each touch gets
  the type of the touch event and goes through \<^verbatim>\<open>eventHandler\<close>.
\<close>

fun touch_loop :: "page \<Rightarrow> string \<Rightarrow> (event \<times> int) list \<Rightarrow> trackui \<Rightarrow> trackui" where
  "touch_loop pg ty [] s = s"
| "touch_loop pg ty ((touch, timeNow) # touches) s =
     touch_loop pg ty touches (eventHandler pg (touch\<lparr> ev_type := ty \<rparr>) timeNow s)"

definition touchHandler :: "page \<Rightarrow> touch_event \<Rightarrow> trackui \<Rightarrow> trackui" where
  "touchHandler pg e s =
     (case changedTouches e of None \<Rightarrow> s | Some touches \<Rightarrow> touch_loop pg (te_type e) touches s)"

text \<open>\<^verbatim>\<open>flush(e)\<close>, the unload hook: one synchronous request, chosen by \<^verbatim>\<open>TrackUI.uid\<close>.\<close>

definition flush :: "bool \<Rightarrow> page \<Rightarrow> trackui \<Rightarrow> trackui" where
  "flush ok pg s = (if truthy (uid s) then appendData ok False s else initNewData ok pg False s)"

subsection \<open>The page visit\<close>

text \<open>
  What the browser does to the page after \<^verbatim>\<open>record\<close>: it delivers an event to a listener,
  fires an armed timer (\<open>Tick i\<close>, the timer at position \<open>i\<close>; a timeout is disarmed by
  firing, an interval stays armed), runs the callback of an init request in flight with
  the response text (\<open>Response\<close>), or runs the unload hook (\<open>Unload\<close>). A step that the
  browser cannot take (no such timer, no request in flight) changes nothing.

  The callback of a synchronous request runs while \<^verbatim>\<open>send\<close> is still on the stack, before
  \<^verbatim>\<open>TrackUI.info = []\<close>; \<^verbatim>\<open>setUserId\<close> neither reads nor writes \<^verbatim>\<open>info\<close>, so the state is
  that of \<open>Unload\<close> followed by \<open>Response\<close>. The hook is registered for
  \<^verbatim>\<open>beforeunload\<close> when the page has its own \<^verbatim>\<open>onbeforeunload\<close> handler and for
  \<^verbatim>\<open>unload\<close> otherwise; \<^verbatim>\<open>flush\<close> disarms no timer and sets no flag, and a
  \<^verbatim>\<open>beforeunload\<close> that the user cancels leaves the page running, so \<open>Unload\<close> need not
  be the last step.
\<close>

datatype host_event =
    Mouse page event int
  | Key page event int
  | Win page event int
  | Touch page touch_event
  | Tick nat page bool
  | Response string
  | Unload page bool

fun step :: "host_event \<Rightarrow> trackui \<Rightarrow> trackui" where
  "step (Mouse pg e t) s = mouseHandler pg e t s"
| "step (Key pg e t) s = keyHandler pg e t s"
| "step (Win pg e t) s = winHandler pg e t s"
| "step (Touch pg e) s = touchHandler pg e s"
| "step (Tick i pg ok) s =
     (if i < length (timers s)
      then (case timers s ! i of
              SetTimeout d \<Rightarrow> initNewData ok pg True (s\<lparr> timers := take i (timers s) @ drop (Suc i) (timers s) \<rparr>)
            | SetInterval d \<Rightarrow> appendData ok True s)
      else s)"
| "step (Response r) s =
     (if 0 < inflight s then setUserId r (s\<lparr> inflight := inflight s - 1 \<rparr>) else s)"
| "step (Unload pg ok) s = flush ok pg s"

fun run :: "host_event list \<Rightarrow> trackui \<Rightarrow> trackui" where
  "run [] s = s"
| "run (e # es) s = run es (step e s)"

text \<open>A visit: the script is loaded at \<open>loaded\<close>, the page calls \<^verbatim>\<open>TrackUI.record(cfg)\<close>, the browser takes over.\<close>

definition visit :: "int \<Rightarrow> config \<Rightarrow> host_event list \<Rightarrow> trackui" where
  "visit loaded cfg es = run es (record_fn cfg (TrackUI loaded))"

subsection \<open>Notions for the properties\<close>

text \<open>
  The calls of \<^verbatim>\<open>eventHandler\<close> that a sequence of events makes; \<^verbatim>\<open>mouseHandler\<close>,
  \<^verbatim>\<open>keyHandler\<close> and \<^verbatim>\<open>winHandler\<close> are each one such call.
\<close>

fun handle_all :: "(page \<times> event \<times> int) list \<Rightarrow> trackui \<Rightarrow> trackui" where
  "handle_all [] s = s"
| "handle_all ((pg, e, t) # evs) s = handle_all evs (eventHandler pg e t s)"

text \<open>
  The capture times \<open>ts\<close> all pass the gate of \<^verbatim>\<open>eventHandler\<close>, for the setting \<open>f\<close> and
  the clock \<open>c\<close>: every event of the sequence is recorded.
\<close>

fun pass_gate :: "int \<Rightarrow> int \<Rightarrow> int list \<Rightarrow> bool" where
  "pass_gate f c [] = True"
| "pass_gate f c (t # ts) = ((f \<le> 0 \<or> t - c \<ge> f) \<and> pass_gate f t ts)"

text \<open>The two shapes of request, read off what the transport receives.\<close>

definition is_init :: "request \<Rightarrow> bool" where
  "is_init q = (callback q \<and> suffix ''&action=init'' (postdata q))"

definition is_append_of :: "jsnum \<Rightarrow> request \<Rightarrow> bool" where
  "is_append_of u q =
     (\<not> callback q \<and> prefix (''uid='' @ string_of_jsnum u @ ''&info='') (postdata q)
      \<and> suffix ''&action=append'' (postdata q))"


text \<open>The steps that deliver an event to a listener.\<close>

fun ui_event :: "host_event \<Rightarrow> bool" where
  "ui_event (Mouse pg e t) = True"
| "ui_event (Key pg e t) = True"
| "ui_event (Win pg e t) = True"
| "ui_event (Touch pg e) = True"
| "ui_event (Tick i pg ok) = False"
| "ui_event (Response r) = False"
| "ui_event (Unload pg ok) = False"

subsection \<open>Sample inputs\<close>

definition move0 :: event where
  "move0 = \<lparr> ev_id = None, ev_type = ''mousemove'', pageX = Some 3, pageY = None,
              clientX = None, clientY = None, xpath = ''/html/body/div[1]'' \<rparr>"

definition page0 :: page where
  "page0 = \<lparr> href = ''http://a.b/c?d=1'', screenw = 1920, screenh = 1080, winw = 800, winh = 600,
              docw = 800, doch = 2000, body_scrollLeft = 0, docel_scrollLeft = 0,
              body_scrollTop = 0, docel_scrollTop = 0 \<rparr>"

definition no_config :: config where
  "no_config = \<lparr> cfg_postServer = None, cfg_postInterval = None, cfg_samplingFreq = None,
                  cfg_taskName = None, cfg_layoutType = None \<rparr>"

definition click0 :: event where
  "click0 = \<lparr> ev_id = None, ev_type = ''click'', pageX = Some 10, pageY = Some 20,
               clientX = None, clientY = None, xpath = ''/html/body'' \<rparr>"

definition finger :: "int \<Rightarrow> event" where
  "finger i = \<lparr> ev_id = Some i, ev_type = [], pageX = Some 10, pageY = Some 20,
                 clientX = None, clientY = None, xpath = ''/html/body'' \<rparr>"

section \<open>Properties\<close>

subsection \<open>What each method changes\<close>

lemmas js_eval = parseInt_def is_space_def is_digit_def is_hex_digit_def is_radix_digit_def
  between_def digits_val_def digit_val_def string_of_int_def string_of_nat.simps
  digit_char_def hex_char_def to_number_def nearest_double_def bitlen.simps

lemma record_fn_fields:
  "uid (record_fn cfg s) = uid s"
  "time (record_fn cfg s) = time s"
  "info (record_fn cfg s) = info s"
  "inflight (record_fn cfg s) = inflight s"
  "outbox (record_fn cfg s) = outbox s"
  "timers (record_fn cfg s) =
     timers s @ [SetTimeout (override (cfg_postInterval cfg) (postInterval (settings s)) * 1000)]"
  "samplingFreq (settings (record_fn cfg s)) = override (cfg_samplingFreq cfg) (samplingFreq (settings s))"
  "postInterval (settings (record_fn cfg s)) = override (cfg_postInterval cfg) (postInterval (settings s))"
  "postServer (settings (record_fn cfg s)) = override (cfg_postServer cfg) (postServer (settings s))"
  by (simp_all add: record_fn_def Let_def)

lemma initNewData_fields:
  "info (initNewData ok pg a s) = []"
  "uid (initNewData ok pg a s) = uid s"
  "time (initNewData ok pg a s) = time s"
  "settings (initNewData ok pg a s) = settings s"
  "timers (initNewData ok pg a s) = timers s"
  "inflight (initNewData ok pg a s) = Suc (inflight s)"
  "outbox (initNewData ok pg a s) =
     outbox s @ [\<lparr> async = a, postdata = init_postdata pg s, callback = True,
                    url = postServer (settings s), delivered = ok \<rparr>]"
  by (simp_all add: initNewData_def send_def)

lemma appendData_fields:
  "info (appendData ok a s) = []"
  "uid (appendData ok a s) = uid s"
  "time (appendData ok a s) = time s"
  "settings (appendData ok a s) = settings s"
  "timers (appendData ok a s) = timers s"
  "inflight (appendData ok a s) = inflight s"
  "outbox (appendData ok a s) =
     outbox s @ [\<lparr> async = a, postdata = append_postdata s, callback = False,
                    url = postServer (settings s), delivered = ok \<rparr>]"
  by (simp_all add: appendData_def send_def)

lemma setUserId_fields:
  "uid (setUserId r s) = parseInt r"
  "info (setUserId r s) = info s"
  "time (setUserId r s) = time s"
  "settings (setUserId r s) = settings s"
  "inflight (setUserId r s) = inflight s"
  "outbox (setUserId r s) = outbox s"
  "timers (setUserId r s) =
     (if truthy (parseInt r) then timers s @ [SetInterval (postInterval (settings s) * 1000)]
      else timers s)"
  by (simp_all add: setUserId_def Let_def)

lemma eventHandler_fields:
  "uid (eventHandler pg e t s) = uid s"
  "settings (eventHandler pg e t s) = settings s"
  "timers (eventHandler pg e t s) = timers s"
  "inflight (eventHandler pg e t s) = inflight s"
  "outbox (eventHandler pg e t s) = outbox s"
  by (simp_all add: eventHandler_def fillInfo_def Let_def)

lemma touch_loop_fields:
  "uid (touch_loop pg ty ts s) = uid s \<and> settings (touch_loop pg ty ts s) = settings s
   \<and> timers (touch_loop pg ty ts s) = timers s \<and> inflight (touch_loop pg ty ts s) = inflight s
   \<and> outbox (touch_loop pg ty ts s) = outbox s"
  by (induction pg ty ts s rule: touch_loop.induct) (simp_all add: eventHandler_fields)

lemma touchHandler_fields:
  "uid (touchHandler pg e s) = uid s"
  "settings (touchHandler pg e s) = settings s"
  "timers (touchHandler pg e s) = timers s"
  "inflight (touchHandler pg e s) = inflight s"
  "outbox (touchHandler pg e s) = outbox s"
  by (simp_all add: touchHandler_def touch_loop_fields split: option.splits)

lemma flush_fields:
  "info (flush ok pg s) = []"
  "uid (flush ok pg s) = uid s"
  "time (flush ok pg s) = time s"
  "settings (flush ok pg s) = settings s"
  "timers (flush ok pg s) = timers s"
  "inflight (flush ok pg s) = (if truthy (uid s) then inflight s else Suc (inflight s))"
  "outbox (flush ok pg s) =
     outbox s @ [\<lparr> async = False,
                    postdata = (if truthy (uid s) then append_postdata s else init_postdata pg s),
                    callback = (\<not> truthy (uid s)),
                    url = postServer (settings s), delivered = ok \<rparr>]"
  by (simp_all add: flush_def initNewData_fields appendData_fields)

lemma eventHandler_unfold:
  "eventHandler pg e t s =
     (if samplingFreq (settings s) \<le> 0 \<or> t - time s \<ge> samplingFreq (settings s)
      then s\<lparr> info := info s @ [string_of_prop (ev_id e) @ '' '' @ string_of_int t @ '' ''
                                  @ string_of_int (fst (getMousePos e pg)) @ '' ''
                                  @ string_of_int (snd (getMousePos e pg)) @ '' ''
                                  @ ev_type e @ '' '' @ xpath e],
              time := t \<rparr>
      else s)"
  by (simp add: eventHandler_def fillInfo_def findElement_def Let_def)


lemma run_append: "run (es @ fs) s = run fs (run es s)"
  by (induction es arbitrary: s) simp_all

lemma start_fields:
  "uid (record_fn no_config (TrackUI l)) = Num 0"
  "timers (record_fn no_config (TrackUI l)) = [SetTimeout 30000]"
  "inflight (record_fn no_config (TrackUI l)) = 0"
  "outbox (record_fn no_config (TrackUI l)) = []"
  "info (record_fn no_config (TrackUI l)) = []"
  "time (record_fn no_config (TrackUI l)) = l"
  "settings (record_fn no_config (TrackUI l)) = settings (TrackUI l)"
  "postInterval (settings (TrackUI l)) = 30"
  "samplingFreq (settings (TrackUI l)) = 10"
  "postServer (settings (TrackUI l)) = ''http://my.server.org/save.script''"
  by (simp_all add: record_fn_def TrackUI_def no_config_def override_def)

subsection \<open>The sampling gate\<close>

text \<open>
  C1. An event captured at \<open>nowMs\<close> is recorded when \<^verbatim>\<open>samplingFreq\<close> is at most 0, and
  otherwise exactly when \<open>nowMs - time \<ge> samplingFreq\<close>, the setting taken as a number of
  milliseconds. A recorded event appends its row to the buffer and sets the clock to
  \<open>nowMs\<close>; a rejected event leaves the whole state as it was.
\<close>

theorem eventHandler_sampling_gate:
  "eventHandler pg e nowMs s =
     (if samplingFreq (settings s) \<le> 0 \<or> nowMs - time s \<ge> samplingFreq (settings s)
      then s\<lparr> info := info s @ [string_of_prop (ev_id e) @ '' '' @ string_of_int nowMs @ '' ''
                                  @ string_of_int (fst (getMousePos e pg)) @ '' ''
                                  @ string_of_int (snd (getMousePos e pg)) @ '' ''
                                  @ ev_type e @ '' '' @ xpath e],
              time := nowMs \<rparr>
      else s)"
  by (simp add: eventHandler_def fillInfo_def findElement_def Let_def)

text \<open>
  With \<^verbatim>\<open>samplingFreq\<close> 100 and the script loaded a second earlier, events at 0, 50 and
  150: the first is recorded, the second is rejected and changes nothing, the third is
  recorded.
\<close>

theorem eventHandler_sampling_gate_witness:
  "(let s0 = record_fn (no_config\<lparr> cfg_samplingFreq := Some 100 \<rparr>) (TrackUI (- 1000));
        s1 = eventHandler page0 click0 0 s0;
        s2 = eventHandler page0 click0 50 s1;
        s3 = eventHandler page0 click0 150 s2
    in length (info s0) = 0 \<and> length (info s1) = 1 \<and> time s1 = 0 \<and> s2 = s1
       \<and> length (info s3) = 2 \<and> time s3 = 150)"
proof -
  define s0 where "s0 = record_fn (no_config\<lparr> cfg_samplingFreq := Some 100 \<rparr>) (TrackUI (- 1000))"
  define s1 where "s1 = eventHandler page0 click0 0 s0"
  define s2 where "s2 = eventHandler page0 click0 50 s1"
  define s3 where "s3 = eventHandler page0 click0 150 s2"
  have f0: "samplingFreq (settings s0) = 100" "time s0 = - 1000" "info s0 = []"
    by (simp_all add: s0_def record_fn_fields TrackUI_def no_config_def override_def)
  have f1: "length (info s1) = 1" "time s1 = 0" "samplingFreq (settings s1) = 100"
    unfolding s1_def using f0 eventHandler_sampling_gate [of page0 click0 0 s0]
    by (simp_all add: eventHandler_fields)
  have e2: "s2 = s1"
    unfolding s2_def using f1 eventHandler_sampling_gate [of page0 click0 50 s1] by simp
  have f3: "length (info s3) = 2" "time s3 = 150"
    unfolding s3_def using f1 e2 eventHandler_sampling_gate [of page0 click0 150 s2] by simp_all
  show ?thesis
    using f0 f1 e2 f3 unfolding s0_def s1_def s2_def s3_def Let_def by simp
qed

subsection \<open>The buffer and the sends\<close>

text \<open>
  C2, as the code has it. Both \<^verbatim>\<open>initNewData\<close> and \<^verbatim>\<open>appendData\<close> put the whole buffer
  into the one request they hand to the transport and then set \<^verbatim>\<open>TrackUI.info = []\<close>,
  whatever the transport makes of the request: after every send, delivered or not, the
  buffer is empty, and it is never drained in part.
\<close>

theorem send_always_clears_buffer:
  "info (initNewData ok pg a s) = [] \<and> info (appendData ok a s) = []
   \<and> outbox (initNewData ok pg a s) =
       outbox s @ [\<lparr> async = a, postdata = init_postdata pg s, callback = True,
                      url = postServer (settings s), delivered = ok \<rparr>]
   \<and> outbox (appendData ok a s) =
       outbox s @ [\<lparr> async = a,
                      postdata = ''uid='' @ string_of_jsnum (uid s) @ ''&info='' @ join_comma (info s)
                                 @ ''&action=append'',
                      callback = False, url = postServer (settings s), delivered = ok \<rparr>]"
  by (simp add: initNewData_fields appendData_fields append_postdata_def)

text \<open>
  C2 as stated fails: one record is buffered, the deferred init send is not delivered, and
  the buffer is empty afterwards.
\<close>

theorem failed_send_loses_buffer:
  "length (info (visit 0 no_config [Mouse page0 click0 100])) = 1
   \<and> \<not> delivered (last (outbox (visit 0 no_config [Mouse page0 click0 100, Tick 0 page0 False])))
   \<and> info (visit 0 no_config [Mouse page0 click0 100, Tick 0 page0 False])
       \<noteq> info (visit 0 no_config [Mouse page0 click0 100])"
proof -
  define s0 where "s0 = record_fn no_config (TrackUI 0)"
  define s1 where "s1 = eventHandler page0 click0 100 s0"
  have f0: "timers s0 = [SetTimeout 30000]" "time s0 = 0" "samplingFreq (settings s0) = 10" "info s0 = []"
    by (simp_all add: s0_def record_fn_fields TrackUI_def no_config_def override_def)
  have f1: "length (info s1) = 1" "timers s1 = [SetTimeout 30000]"
    using f0 by (simp_all add: s1_def eventHandler_def fillInfo_def Let_def)
  have v1: "visit 0 no_config [Mouse page0 click0 100] = s1"
    by (simp add: visit_def s0_def s1_def mouseHandler_def)
  have v2: "visit 0 no_config [Mouse page0 click0 100, Tick 0 page0 False]
            = initNewData False page0 True (s1\<lparr> timers := [] \<rparr>)"
    using f1 by (simp add: visit_def s0_def [symmetric] mouseHandler_def s1_def [symmetric])
  show ?thesis
    unfolding v1 v2 using f1 by (auto simp add: initNewData_fields)
qed

subsection \<open>Touch events\<close>

text \<open>
  C9, as the code has it. A touch event with two contact points makes two calls of
  \<^verbatim>\<open>eventHandler\<close>, in the order of \<^verbatim>\<open>changedTouches\<close>, each with its own id and the type
  of the touch event. Each call goes through the sampling gate, the second against the
  clock that the first has left: the buffer gains the rows of the contacts that pass, in
  order. It gains both rows when \<^verbatim>\<open>samplingFreq\<close> is at most 0, and at most two otherwise.
\<close>

theorem touchHandler_two_contacts:
  "(let f = samplingFreq (settings s);
        s' = touchHandler pg \<lparr> te_type = ty, changedTouches = Some [(a, ta), (b, tb)] \<rparr> s;
        first = (f \<le> 0 \<or> ta - time s \<ge> f);
        second = (f \<le> 0 \<or> tb - (if first then ta else time s) \<ge> f);
        row = (\<lambda>e t. string_of_prop (ev_id e) @ '' '' @ string_of_int t @ '' ''
                     @ string_of_int (fst (getMousePos e pg)) @ '' ''
                     @ string_of_int (snd (getMousePos e pg)) @ '' '' @ ty @ '' '' @ xpath e)
    in s' = eventHandler pg (b\<lparr> ev_type := ty \<rparr>) tb (eventHandler pg (a\<lparr> ev_type := ty \<rparr>) ta s)
       \<and> info s' = info s @ (if first then [row a ta] else []) @ (if second then [row b tb] else [])
       \<and> (if f \<le> 0 then info s' = info s @ [row a ta, row b tb]
           else length (info s') \<le> length (info s) + 2))"
  by (simp add: touchHandler_def eventHandler_unfold getMousePos_def Let_def)

theorem touchHandler_two_contacts_witness:
  "info (touchHandler page0
           \<lparr> te_type = ''touchstart'', changedTouches = Some [(finger 0, 100), (finger 1, 100)] \<rparr>
           (record_fn (no_config\<lparr> cfg_samplingFreq := Some 0 \<rparr>) (TrackUI 0)))
   = [''0 100 10 20 touchstart /html/body'', ''1 100 10 20 touchstart /html/body'']"
proof -
  define s where "s = record_fn (no_config\<lparr> cfg_samplingFreq := Some 0 \<rparr>) (TrackUI 0)"
  have f: "samplingFreq (settings s) = 0" "info s = []"
    by (simp_all add: s_def record_fn_fields TrackUI_def no_config_def override_def)
  have g: "getMousePos (finger i) page0 = (10, 20)" for i
    by (simp add: getMousePos_def finger_def)
  have n: "string_of_int 0 = ''0''" "string_of_int 1 = ''1''" "string_of_int 100 = ''100''"
    "string_of_int 10 = ''10''" "string_of_int 20 = ''20''"
    by (simp_all add: js_eval)
  have x: "ev_id (finger i) = Some i" "xpath (finger i) = ''/html/body''" for i
    by (simp_all add: finger_def)
  show ?thesis
    using touchHandler_two_contacts [of s page0 "''touchstart''" "finger 0" 100 "finger 1" 100]
    unfolding s_def [symmetric] Let_def by (elim conjE) (simp add: f g n x)
qed

text \<open>
  C9 as stated fails: with the default \<^verbatim>\<open>samplingFreq\<close> of 10, two contact points handled
  in the same millisecond leave one record, that of the first contact. The second contact
  is dropped because of the first: handled alone it is recorded.
\<close>

theorem two_contacts_one_record:
  "info (touchHandler page0
           \<lparr> te_type = ''touchstart'', changedTouches = Some [(finger 0, 100), (finger 1, 100)] \<rparr>
           (record_fn no_config (TrackUI 0)))
   = [''0 100 10 20 touchstart /html/body'']
   \<and> info (touchHandler page0
           \<lparr> te_type = ''touchstart'', changedTouches = Some [(finger 1, 100)] \<rparr>
           (record_fn no_config (TrackUI 0)))
   = [''1 100 10 20 touchstart /html/body'']"
proof -
  have g: "getMousePos ((finger i)\<lparr> ev_type := ty \<rparr>) page0 = (10, 20)" for i ty
    by (simp add: getMousePos_def finger_def)
  have n: "string_of_int 0 = ''0''" "string_of_int 1 = ''1''" "string_of_int 100 = ''100''"
    "string_of_int 10 = ''10''" "string_of_int 20 = ''20''"
    by (simp_all add: js_eval)
  have x: "ev_id (finger i) = Some i" "xpath (finger i) = ''/html/body''" for i
    by (simp_all add: finger_def)
  show ?thesis
    by (simp add: touchHandler_def eventHandler_unfold start_fields g n x)
qed

subsection \<open>Parsing the init response\<close>

lemma bitlen_le: "n < 2 ^ k \<Longrightarrow> bitlen n \<le> k"
proof (induction k arbitrary: n)
  case 0
  then show ?case by (simp add: bitlen.simps)
next
  case (Suc k)
  then have "n div 2 < 2 ^ k" by simp
  from Suc.IH [OF this] show ?case by (subst bitlen.simps) simp
qed

lemma bitlen_lower: "n \<noteq> 0 \<Longrightarrow> 2 ^ (bitlen n - 1) \<le> n"
proof (induction n rule: bitlen.induct)
  case (1 n)
  show ?case
  proof (cases "n div 2 = 0")
    case True
    with "1.prems" show ?thesis
      by (subst bitlen.simps) (simp add: bitlen.simps [of 0])
  next
    case False
    with "1.IH" "1.prems" have ih: "2 ^ (bitlen (n div 2) - 1) \<le> n div 2" by simp
    from False have pos: "0 < bitlen (n div 2)" by (subst bitlen.simps) simp
    have "bitlen n = Suc (bitlen (n div 2))" using "1.prems" by (subst bitlen.simps) simp
    then have "(2::nat) ^ (bitlen n - 1) = 2 * 2 ^ (bitlen (n div 2) - 1)"
      using pos by (cases "bitlen (n div 2)") simp_all
    also have "\<dots> \<le> 2 * (n div 2)" using ih by simp
    also have "\<dots> \<le> n" by simp
    finally show ?thesis .
  qed
qed

lemma nearest_double_safe: "v < 2 ^ 53 \<Longrightarrow> nearest_double v = Some v"
  by (simp add: nearest_double_def bitlen_le)

lemma to_number_safe: "v < 2 ^ 53 \<Longrightarrow> to_number neg v = Num (if neg then - int v else int v)"
  by (simp add: to_number_def nearest_double_safe)

lemma nearest_double_pos:
  assumes "v \<noteq> 0" "nearest_double v = Some w"
  shows "w \<noteq> 0"
proof (cases "bitlen v \<le> 53")
  case True
  with assms show ?thesis by (simp add: nearest_double_def)
next
  case False
  define sh where "sh = bitlen v - 53"
  have "(2::nat) ^ sh \<le> 2 ^ (bitlen v - 1)"
    unfolding sh_def by (rule power_increasing) simp_all
  also have "\<dots> \<le> v" using assms(1) by (rule bitlen_lower)
  finally have "1 \<le> v div 2 ^ sh"
    by (simp add: Suc_le_eq div_greater_zero_iff)
  then have q: "v div 2 ^ sh \<noteq> 0" by simp
  from assms(2) False show ?thesis
    unfolding nearest_double_def Let_def sh_def [symmetric] using q
    by (auto split: if_splits)
qed

lemma to_number_truthy: "v \<noteq> 0 \<Longrightarrow> truthy (to_number neg v)"
  using nearest_double_pos [of v]
  by (cases "nearest_double v") (simp_all add: to_number_def)

lemma dropWhile_spaces:
  "list_all is_space ws \<Longrightarrow> t = [] \<or> \<not> is_space (hd t) \<Longrightarrow> dropWhile is_space (ws @ t) = t"
  by (induction ws) (cases t; auto)+

lemma takeWhile_run: "list_all P ds \<Longrightarrow> rest = [] \<or> \<not> P (hd rest) \<Longrightarrow> takeWhile P (ds @ rest) = ds"
  by (induction ds) (auto simp: takeWhile_eq_Nil_iff neq_Nil_conv)

lemma sign_not_space: "\<not> is_space CHR ''+''" "\<not> is_space CHR ''-''"
  by (simp_all add: is_space_def)

lemma digit_not_space: "is_digit c \<Longrightarrow> \<not> is_space c"
  by (auto simp: is_digit_def is_space_def between_def)

lemma digit_not_sign: "is_digit c \<Longrightarrow> c \<noteq> CHR ''-'' \<and> c \<noteq> CHR ''+'' \<and> c \<noteq> CHR ''x'' \<and> c \<noteq> CHR ''X''"
  by (auto simp: is_digit_def between_def)

lemma zero_is_digit: "is_digit CHR ''0''"
  by (simp add: is_digit_def between_def)

lemma is_radix_digit_10: "is_radix_digit 10 = is_digit"
  by (rule ext) (simp add: is_radix_digit_def)

lemma is_radix_digit_16: "is_radix_digit 16 = is_hex_digit"
  by (rule ext) (simp add: is_radix_digit_def)

text \<open>A number past \<open>10^21\<close> prints with an exponent.\<close>

lemma string_of_jsnum_exponent: "string_of_jsnum (to_number False (10 ^ 22)) = ''1e+22''"
proof -
  have r: "nearest_double 10000000000000000000000 = Some 10000000000000000000000"
    by (simp add: nearest_double_def bitlen.simps Let_def)
  have l: "length (string_of_nat 10000000000000000000000) = 23"
    by (simp add: string_of_nat.simps)
  have p: "pick 10000000000000000000000 10000000000000000000000 = Some 10000000000000000000000"
    by (simp add: pick_def nearest_double_def bitlen.simps Let_def)
  have s: "shortest 10000000000000000000000 = 10000000000000000000000"
    by (simp add: shortest_def l upt_rec p)
  show ?thesis
    by (simp add: to_number_def r string_of_double_def s Let_def string_of_nat.simps
        digit_char_def hex_char_def)
qed

text \<open>White space and sign are taken off the front; what is left decides the result.\<close>

lemma parseInt_front:
  assumes ws: "list_all is_space ws" and sg: "sg = [] \<or> sg = ''+'' \<or> sg = ''-''"
    and body: "sg = [] \<longrightarrow> body = [] \<or> (\<not> is_space (hd body) \<and> hd body \<noteq> CHR ''+'' \<and> hd body \<noteq> CHR ''-'')"
  shows "parseInt (ws @ sg @ body) =
     (case strip_prefix body of (radix, s3) \<Rightarrow>
        if takeWhile (is_radix_digit radix) s3 = [] then NaN
        else to_number (sg = ''-'') (digits_val radix (takeWhile (is_radix_digit radix) s3)))"
proof -
  have "sg @ body = [] \<or> \<not> is_space (hd (sg @ body))"
    using sg body sign_not_space by (cases body) auto
  from dropWhile_spaces [OF ws this] have d: "dropWhile is_space (ws @ sg @ body) = sg @ body" .
  have s: "strip_sign (sg @ body) = (sg = ''-'', body)"
    using sg body by (cases body) auto
  show ?thesis
    by (simp add: parseInt_def d s Let_def split: prod.splits)
qed

lemma strip_prefix_decimal:
  assumes "ds \<noteq> []" "list_all is_digit ds"
    "\<not> (ds = ''0'' \<and> rest \<noteq> [] \<and> (hd rest = CHR ''x'' \<or> hd rest = CHR ''X''))"
  shows "strip_prefix (ds @ rest) = (10, ds @ rest)"
proof (cases ds)
  case Nil
  with assms show ?thesis by simp
next
  case (Cons a ds1)
  show ?thesis
  proof (cases ds1)
    case Nil
    with Cons assms(3) show ?thesis by (cases rest) auto
  next
    case (Cons b ds2)
    with assms(2) \<open>ds = a # ds1\<close> have "is_digit b" by simp
    then have "b \<noteq> CHR ''x'' \<and> b \<noteq> CHR ''X''" using digit_not_sign by blast
    with Cons \<open>ds = a # ds1\<close> show ?thesis by simp
  qed
qed

lemma parseInt_decimal:
  assumes "list_all is_space ws" "sg = [] \<or> sg = ''+'' \<or> sg = ''-''"
    and "ds \<noteq> []" "list_all is_digit ds" "rest = [] \<or> \<not> is_digit (hd rest)"
    and "\<not> (ds = ''0'' \<and> rest \<noteq> [] \<and> (hd rest = CHR ''x'' \<or> hd rest = CHR ''X''))"
  shows "parseInt (ws @ sg @ ds @ rest) = to_number (sg = ''-'') (digits_val 10 ds)"
proof -
  obtain a ds1 where ds: "ds = a # ds1" using assms(3) by (cases ds) auto
  with assms(4) have "is_digit a" by simp
  then have b: "sg = [] \<longrightarrow> ds @ rest = [] \<or> (\<not> is_space (hd (ds @ rest)) \<and> hd (ds @ rest) \<noteq> CHR ''+''
      \<and> hd (ds @ rest) \<noteq> CHR ''-'')"
    using ds digit_not_space digit_not_sign by simp
  have t: "takeWhile is_digit (ds @ rest) = ds" using assms(4,5) by (rule takeWhile_run)
  show ?thesis
    using parseInt_front [OF assms(1,2) b] assms(3)
    by (simp add: strip_prefix_decimal [OF assms(3,4,6)] is_radix_digit_10 t)
qed

lemma parseInt_hex:
  assumes "list_all is_space ws" "sg = [] \<or> sg = ''+'' \<or> sg = ''-''"
    and "x = CHR ''x'' \<or> x = CHR ''X''"
    and "hs \<noteq> []" "list_all is_hex_digit hs" "rest = [] \<or> \<not> is_hex_digit (hd rest)"
  shows "parseInt (ws @ sg @ CHR ''0'' # x # hs @ rest) = to_number (sg = ''-'') (digits_val 16 hs)"
proof -
  have b: "sg = [] \<longrightarrow> CHR ''0'' # x # hs @ rest = []
      \<or> (\<not> is_space (hd (CHR ''0'' # x # hs @ rest)) \<and> hd (CHR ''0'' # x # hs @ rest) \<noteq> CHR ''+''
         \<and> hd (CHR ''0'' # x # hs @ rest) \<noteq> CHR ''-'')"
    using digit_not_space [OF zero_is_digit] by simp
  have t: "takeWhile is_hex_digit (hs @ rest) = hs" using assms(5,6) by (rule takeWhile_run)
  show ?thesis
    using parseInt_front [OF assms(1,2) b] assms(3,4)
    by (auto simp add: is_radix_digit_16 t)
qed

lemma parseInt_no_digit:
  assumes "list_all is_space ws" "sg = [] \<or> sg = ''+'' \<or> sg = ''-''"
    and "rest = [] \<or> \<not> is_digit (hd rest)"
    and "sg = [] \<longrightarrow> rest = [] \<or> (\<not> is_space (hd rest) \<and> hd rest \<noteq> CHR ''+'' \<and> hd rest \<noteq> CHR ''-'')"
  shows "parseInt (ws @ sg @ rest) = NaN"
proof -
  have p: "strip_prefix rest = (10, rest)"
  proof (cases rest)
    case Nil
    then show ?thesis by simp
  next
    case (Cons a r1)
    with assms(3) zero_is_digit have "a \<noteq> CHR ''0''" by auto
    with Cons show ?thesis by (cases r1) auto
  qed
  have "takeWhile is_digit rest = []" using assms(3) by (cases rest) auto
  then show ?thesis
    using parseInt_front [OF assms(1,2,4)] by (simp add: p is_radix_digit_10)
qed

lemma parseInt_bare_hex_prefix:
  assumes "list_all is_space ws" "sg = [] \<or> sg = ''+'' \<or> sg = ''-''"
    and "x = CHR ''x'' \<or> x = CHR ''X''" "rest = [] \<or> \<not> is_hex_digit (hd rest)"
  shows "parseInt (ws @ sg @ CHR ''0'' # x # rest) = NaN"
proof -
  have b: "sg = [] \<longrightarrow> CHR ''0'' # x # rest = []
      \<or> (\<not> is_space (hd (CHR ''0'' # x # rest)) \<and> hd (CHR ''0'' # x # rest) \<noteq> CHR ''+''
         \<and> hd (CHR ''0'' # x # rest) \<noteq> CHR ''-'')"
    using digit_not_space [OF zero_is_digit] by simp
  have "takeWhile is_hex_digit rest = []" using assms(4) by (cases rest) auto
  then show ?thesis
    using parseInt_front [OF assms(1,2) b] assms(3) by (auto simp add: is_radix_digit_16)
qed

text \<open>
  C10. \<^verbatim>\<open>parseInt\<close> reads an integer prefix. After white space \<open>ws\<close> and a sign \<open>sg\<close>,
  a run of decimal digits \<open>ds\<close> followed by anything that is not a digit gives the value of
  \<open>ds\<close> with the sign, rounded to a double; after \<^verbatim>\<open>0x\<close>, a run of hexadecimal digits
  gives its value; with no digit at that place the result is \<^verbatim>\<open>NaN\<close>. A value below
  \<open>2^53\<close> is kept as it is and a value other than 0 is truthy. For a truthy result
  \<^verbatim>\<open>setUserId\<close> stores it and arms the append interval; for \<^verbatim>\<open>NaN\<close> it stores \<^verbatim>\<open>NaN\<close> and
  arms nothing, and the next flush sends an init request.
\<close>

theorem parseInt_prefix_and_nan:
  assumes "list_all is_space ws" and "sg = [] \<or> sg = ''+'' \<or> sg = ''-''"
  shows
    "(ds \<noteq> [] \<and> list_all is_digit ds \<and> (rest = [] \<or> \<not> is_digit (hd rest))
        \<and> \<not> (ds = ''0'' \<and> rest \<noteq> [] \<and> (hd rest = CHR ''x'' \<or> hd rest = CHR ''X''))
      \<longrightarrow> parseInt (ws @ sg @ ds @ rest) = to_number (sg = ''-'') (digits_val 10 ds))
     \<and> ((x = CHR ''x'' \<or> x = CHR ''X'') \<and> hs \<noteq> [] \<and> list_all is_hex_digit hs
        \<and> (rest = [] \<or> \<not> is_hex_digit (hd rest))
      \<longrightarrow> parseInt (ws @ sg @ CHR ''0'' # x # hs @ rest) = to_number (sg = ''-'') (digits_val 16 hs))
     \<and> ((rest = [] \<or> \<not> is_digit (hd rest))
        \<and> (sg = [] \<longrightarrow> rest = [] \<or> (\<not> is_space (hd rest) \<and> hd rest \<noteq> CHR ''+'' \<and> hd rest \<noteq> CHR ''-''))
      \<longrightarrow> parseInt (ws @ sg @ rest) = NaN)
     \<and> ((x = CHR ''x'' \<or> x = CHR ''X'') \<and> (rest = [] \<or> \<not> is_hex_digit (hd rest))
      \<longrightarrow> parseInt (ws @ sg @ CHR ''0'' # x # rest) = NaN)
     \<and> (v < 2 ^ 53 \<longrightarrow> to_number neg v = Num (if neg then - int v else int v))
     \<and> (v \<noteq> 0 \<longrightarrow> truthy (to_number neg v))
     \<and> (truthy (parseInt r)
      \<longrightarrow> setUserId r s =
            s\<lparr> uid := parseInt r, timers := timers s @ [SetInterval (postInterval (settings s) * 1000)] \<rparr>)
     \<and> (parseInt r = NaN
      \<longrightarrow> setUserId r s = s\<lparr> uid := NaN \<rparr>
          \<and> outbox (flush ok pg (setUserId r s)) =
              outbox s @ [\<lparr> async = False,
                 postdata =
                   ''url='' @ escape (href pg)
                   @ ''&screenw='' @ string_of_int (screenw pg) @ ''&screenh='' @ string_of_int (screenh pg)
                   @ ''&winw='' @ string_of_int (winw pg) @ ''&winh='' @ string_of_int (winh pg)
                   @ ''&docw='' @ string_of_int (docw pg) @ ''&doch='' @ string_of_int (doch pg)
                   @ ''&info='' @ join_comma (info s)
                   @ ''&task='' @ taskName (settings s) @ ''&layout='' @ layoutType (settings s)
                   @ ''&action=init'',
                 callback = True, url = postServer (settings s), delivered = ok \<rparr>])"
proof -
  have 1: "parseInt (ws @ sg @ ds @ rest) = to_number (sg = ''-'') (digits_val 10 ds)"
    if "ds \<noteq> [] \<and> list_all is_digit ds \<and> (rest = [] \<or> \<not> is_digit (hd rest))
        \<and> \<not> (ds = ''0'' \<and> rest \<noteq> [] \<and> (hd rest = CHR ''x'' \<or> hd rest = CHR ''X''))"
    using that by (intro parseInt_decimal [OF assms]) simp_all
  have 2: "parseInt (ws @ sg @ CHR ''0'' # x # hs @ rest) = to_number (sg = ''-'') (digits_val 16 hs)"
    if "(x = CHR ''x'' \<or> x = CHR ''X'') \<and> hs \<noteq> [] \<and> list_all is_hex_digit hs
        \<and> (rest = [] \<or> \<not> is_hex_digit (hd rest))"
    using that by (intro parseInt_hex [OF assms]) simp_all
  have 3: "parseInt (ws @ sg @ rest) = NaN"
    if "(rest = [] \<or> \<not> is_digit (hd rest))
        \<and> (sg = [] \<longrightarrow> rest = [] \<or> (\<not> is_space (hd rest) \<and> hd rest \<noteq> CHR ''+'' \<and> hd rest \<noteq> CHR ''-''))"
    using that by (intro parseInt_no_digit [OF assms]) simp_all
  have 4: "parseInt (ws @ sg @ CHR ''0'' # x # rest) = NaN"
    if "(x = CHR ''x'' \<or> x = CHR ''X'') \<and> (rest = [] \<or> \<not> is_hex_digit (hd rest))"
    using that by (intro parseInt_bare_hex_prefix [OF assms]) simp_all
  have 7: "setUserId r s =
            s\<lparr> uid := parseInt r, timers := timers s @ [SetInterval (postInterval (settings s) * 1000)] \<rparr>"
    if "truthy (parseInt r)"
    using that by (simp add: setUserId_def)
  have 8: "setUserId r s = s\<lparr> uid := NaN \<rparr>
          \<and> outbox (flush ok pg (setUserId r s)) =
              outbox s @ [\<lparr> async = False,
                 postdata =
                   ''url='' @ escape (href pg)
                   @ ''&screenw='' @ string_of_int (screenw pg) @ ''&screenh='' @ string_of_int (screenh pg)
                   @ ''&winw='' @ string_of_int (winw pg) @ ''&winh='' @ string_of_int (winh pg)
                   @ ''&docw='' @ string_of_int (docw pg) @ ''&doch='' @ string_of_int (doch pg)
                   @ ''&info='' @ join_comma (info s)
                   @ ''&task='' @ taskName (settings s) @ ''&layout='' @ layoutType (settings s)
                   @ ''&action=init'',
                 callback = True, url = postServer (settings s), delivered = ok \<rparr>]"
    if "parseInt r = NaN"
  proof -
    from that have e: "setUserId r s = s\<lparr> uid := NaN \<rparr>" by (simp add: setUserId_def)
    show ?thesis unfolding e by (simp add: flush_fields init_postdata_def)
  qed
  from 1 2 3 4 7 8 to_number_safe [of v neg] to_number_truthy [of v neg] show ?thesis
    by blast
qed

text \<open>
  The responses \<^verbatim>\<open>42abc\<close>, a hexadecimal one with a no-break space, a space and a minus
  sign in front, and \<^verbatim>\<open>abc\<close>.
\<close>

theorem parseInt_prefix_and_nan_witness:
  "parseInt ''42abc'' = Num 42
   \<and> setUserId ''42abc'' (TrackUI 0) = (TrackUI 0)\<lparr> uid := Num 42, timers := [SetInterval 30000] \<rparr>
   \<and> parseInt (CHR 0xA0 # '' -0x1Fz'') = Num (- 31)
   \<and> parseInt ''9007199254740993'' = Num 9007199254740992
   \<and> parseInt ''abc'' = NaN
   \<and> setUserId ''abc'' (TrackUI 0) = (TrackUI 0)\<lparr> uid := NaN \<rparr>
   \<and> postdata (last (outbox (flush True page0 (setUserId ''abc'' (TrackUI 0))))) =
       ''url=http%3A//a.b/c%3Fd%3D1&screenw=1920&screenh=1080&winw=800&winh=600&docw=800&doch=2000&info=&task=evtrack&layout=liquid&action=init''"
proof -
  have v: "digits_val 10 ''42'' = 42" "digits_val 16 ''1F'' = 31" by (simp_all add: js_eval)
  have w0: "list_all is_space []" "[] = [] \<or> [] = ''+'' \<or> [] = ''-''" by simp_all
  have w1: "list_all is_space [CHR 0xA0, CHR '' '']" "''-'' = [] \<or> ''-'' = ''+'' \<or> ''-'' = ''-''"
    by (simp_all add: is_space_def)
  have d: "''42'' \<noteq> [] \<and> list_all is_digit ''42'' \<and> (''abc'' = [] \<or> \<not> is_digit (hd ''abc''))
        \<and> \<not> (''42'' = ''0'' \<and> ''abc'' \<noteq> [] \<and> (hd ''abc'' = CHR ''x'' \<or> hd ''abc'' = CHR ''X''))"
    by (simp add: is_digit_def between_def)
  have h: "(CHR ''x'' = CHR ''x'' \<or> CHR ''x'' = CHR ''X'') \<and> ''1F'' \<noteq> [] \<and> list_all is_hex_digit ''1F''
        \<and> (''z'' = [] \<or> \<not> is_hex_digit (hd ''z''))"
    by (simp add: is_hex_digit_def is_digit_def between_def)
  have n: "(''abc'' = [] \<or> \<not> is_digit (hd ''abc''))
        \<and> ([] = [] \<longrightarrow> ''abc'' = [] \<or> (\<not> is_space (hd ''abc'') \<and> hd ''abc'' \<noteq> CHR ''+'' \<and> hd ''abc'' \<noteq> CHR ''-''))"
    by (simp add: is_digit_def is_space_def between_def)
  note A = parseInt_prefix_and_nan [OF w0, where ds = "''42''" and rest = "''abc''" and v = 42
      and neg = False and r = "''42abc''" and s = "TrackUI 0"]
  note B = parseInt_prefix_and_nan [OF w1, where x = "CHR ''x''" and hs = "''1F''" and rest = "''z''"
      and v = 31 and neg = True]
  note C = parseInt_prefix_and_nan [OF w0, where rest = "''abc''" and r = "''abc''" and s = "TrackUI 0"
      and ok = True and pg = page0]
  have p1: "parseInt ''42abc'' = Num 42" using A d by (simp add: v)
  have s1: "setUserId ''42abc'' (TrackUI 0) = (TrackUI 0)\<lparr> uid := Num 42, timers := [SetInterval 30000] \<rparr>"
    using A p1 by (simp add: TrackUI_def)
  have p2: "parseInt (CHR 0xA0 # '' -0x1Fz'') = Num (- 31)" using B h by (simp add: v)
  have d': "''9007199254740993'' \<noteq> [] \<and> list_all is_digit ''9007199254740993''
        \<and> ([] = [] \<or> \<not> is_digit (hd []))
        \<and> \<not> (''9007199254740993'' = ''0'' \<and> [] \<noteq> [] \<and> (hd [] = CHR ''x'' \<or> hd [] = CHR ''X''))"
    by (simp add: is_digit_def between_def)
  have v': "to_number False (digits_val 10 ''9007199254740993'') = Num 9007199254740992"
    by (simp add: js_eval)
  note D = parseInt_prefix_and_nan [OF w0, where ds = "''9007199254740993''" and rest = "[]"]
  have p4: "parseInt ''9007199254740993'' = Num 9007199254740992" using D d' by (simp add: v')
  have p3: "parseInt ''abc'' = NaN" using C n by simp
  have e: "escape (href page0) = ''http%3A//a.b/c%3Fd%3D1''"
    by (simp add: page0_def escape_def is_unescaped_def is_digit_def between_def hex_char_def)
  have i: "string_of_int 1920 = ''1920''" "string_of_int 1080 = ''1080''" "string_of_int 800 = ''800''"
    "string_of_int 600 = ''600''" "string_of_int 2000 = ''2000''"
    by (simp_all add: js_eval)
  have s3: "setUserId ''abc'' (TrackUI 0) = (TrackUI 0)\<lparr> uid := NaN \<rparr>" using C p3 by blast
  have o3: "outbox (flush True page0 (setUserId ''abc'' (TrackUI 0))) =
              outbox (TrackUI 0) @ [\<lparr> async = False,
                 postdata =
                   ''url='' @ escape (href page0)
                   @ ''&screenw='' @ string_of_int (screenw page0) @ ''&screenh='' @ string_of_int (screenh page0)
                   @ ''&winw='' @ string_of_int (winw page0) @ ''&winh='' @ string_of_int (winh page0)
                   @ ''&docw='' @ string_of_int (docw page0) @ ''&doch='' @ string_of_int (doch page0)
                   @ ''&info='' @ join_comma (info (TrackUI 0))
                   @ ''&task='' @ taskName (settings (TrackUI 0)) @ ''&layout='' @ layoutType (settings (TrackUI 0))
                   @ ''&action=init'',
                 callback = True, url = postServer (settings (TrackUI 0)), delivered = True \<rparr>]"
    using C p3 by blast
  have f3: "postdata (last (outbox (flush True page0 (setUserId ''abc'' (TrackUI 0))))) =
       ''url=http%3A//a.b/c%3Fd%3D1&screenw=1920&screenh=1080&winw=800&winh=600&docw=800&doch=2000&info=&task=evtrack&layout=liquid&action=init''"
    unfolding o3 by (simp add: e) (simp add: TrackUI_def page0_def i)
  from p1 s1 p2 p4 p3 s3 f3 show ?thesis by blast
qed

subsection \<open>The order of the buffer\<close>

lemma handle_all_rows:
  "pass_gate (samplingFreq (settings s)) (time s) (map (\<lambda>(pg, e, t). t) evs) \<Longrightarrow>
   info (handle_all evs s) =
     info s @ map (\<lambda>(pg, e, t). string_of_prop (ev_id e) @ '' '' @ string_of_int t @ '' ''
                      @ string_of_int (fst (getMousePos e pg)) @ '' ''
                      @ string_of_int (snd (getMousePos e pg)) @ '' ''
                      @ ev_type e @ '' '' @ xpath e) evs"
proof (induction evs s rule: handle_all.induct)
  case (1 s)
  then show ?case by simp
next
  case (2 pg e t evs s)
  from "2.prems" have acc: "samplingFreq (settings s) \<le> 0 \<or> t - time s \<ge> samplingFreq (settings s)"
    and rest: "pass_gate (samplingFreq (settings s)) t (map (\<lambda>(pg, e, t). t) evs)"
    by simp_all
  from acc have st: "settings (eventHandler pg e t s) = settings s" "time (eventHandler pg e t s) = t"
    by (simp_all add: eventHandler_unfold)
  from rest st have "pass_gate (samplingFreq (settings (eventHandler pg e t s))) (time (eventHandler pg e t s))
      (map (\<lambda>(pg, e, t). t) evs)" by simp
  from "2.IH" [OF this] acc show ?case
    by (simp add: eventHandler_unfold)
qed

lemma handle_all_fields:
  "uid (handle_all evs s) = uid s \<and> settings (handle_all evs s) = settings s
   \<and> outbox (handle_all evs s) = outbox s \<and> timers (handle_all evs s) = timers s"
  by (induction evs s rule: handle_all.induct) (simp_all add: eventHandler_fields)

text \<open>
  C8. When every event of a sequence is recorded, the buffer gains one row per event, in
  the order of capture, each row the id, the timestamp, x, y, the event type and the XPath
  joined by single spaces. The \<^verbatim>\<open>info\<close> field of the next payload, append or init, is the
  buffer's rows in that order, joined by commas.
\<close>

theorem info_in_capture_order:
  assumes "pass_gate (samplingFreq (settings s)) (time s) (map (\<lambda>(pg, e, t). t) evs)"
  shows "(let s' = handle_all evs s;
              rows = map (\<lambda>(pg, e, t). string_of_prop (ev_id e) @ '' '' @ string_of_int t @ '' ''
                                @ string_of_int (fst (getMousePos e pg)) @ '' ''
                                @ string_of_int (snd (getMousePos e pg)) @ '' ''
                                @ ev_type e @ '' '' @ xpath e) evs
          in info s' = info s @ rows
             \<and> postdata (last (outbox (appendData ok a s'))) =
                 ''uid='' @ string_of_jsnum (uid s) @ ''&info='' @ join_comma (info s @ rows)
                 @ ''&action=append''
             \<and> postdata (last (outbox (initNewData ok pg a s'))) =
                 ''url='' @ escape (href pg)
                 @ ''&screenw='' @ string_of_int (screenw pg) @ ''&screenh='' @ string_of_int (screenh pg)
                 @ ''&winw='' @ string_of_int (winw pg) @ ''&winh='' @ string_of_int (winh pg)
                 @ ''&docw='' @ string_of_int (docw pg) @ ''&doch='' @ string_of_int (doch pg)
                 @ ''&info='' @ join_comma (info s @ rows)
                 @ ''&task='' @ taskName (settings s) @ ''&layout='' @ layoutType (settings s)
                 @ ''&action=init'')"
  using handle_all_rows [OF assms]
  by (simp add: Let_def appendData_fields initNewData_fields append_postdata_def init_postdata_def
      handle_all_fields)

text \<open>With \<^verbatim>\<open>samplingFreq\<close> 0, three mouse moves at 0, 5 and 10: three rows in that order.\<close>

theorem info_in_capture_order_witness:
  "(let s = record_fn (no_config\<lparr> cfg_samplingFreq := Some 0 \<rparr>) (TrackUI 0);
        s' = handle_all [(page0, move0, 0), (page0, move0, 5), (page0, move0, 10)] s
    in info s' = [''undefined 0 3 0 mousemove /html/body/div[1]'',
                  ''undefined 5 3 0 mousemove /html/body/div[1]'',
                  ''undefined 10 3 0 mousemove /html/body/div[1]'']
       \<and> postdata (last (outbox (appendData True True s'))) =
           ''uid=0&info=undefined 0 3 0 mousemove /html/body/div[1],undefined 5 3 0 mousemove /html/body/div[1],undefined 10 3 0 mousemove /html/body/div[1]&action=append'')"
proof -
  define s where "s = record_fn (no_config\<lparr> cfg_samplingFreq := Some 0 \<rparr>) (TrackUI 0)"
  have f: "samplingFreq (settings s) = 0" "info s = []" "uid s = Num 0"
    by (simp_all add: s_def record_fn_fields TrackUI_def no_config_def override_def)
  have h: "pass_gate (samplingFreq (settings s)) (time s)
             (map (\<lambda>(pg, e, t). t) [(page0, move0, 0), (page0, move0, 5), (page0, move0, 10)])"
    by (simp add: f)
  have g: "getMousePos move0 page0 = (3, 0)"
    by (simp add: getMousePos_def move0_def)
  have n: "string_of_int 0 = ''0''" "string_of_int 3 = ''3''" "string_of_int 5 = ''5''"
    "string_of_int 10 = ''10''"
    by (simp_all add: js_eval)
  have x: "ev_id move0 = None" "ev_type move0 = ''mousemove''" "xpath move0 = ''/html/body/div[1]''"
    by (simp_all add: move0_def)
  show ?thesis
    using info_in_capture_order [OF h, where ok = True and a = True and pg = page0]
    unfolding s_def [symmetric] Let_def by (elim conjE) (simp add: f g n x)
qed

subsection \<open>The session id over a visit\<close>

lemma step_ui_fields:
  "ui_event e \<Longrightarrow>
   uid (step e s) = uid s \<and> settings (step e s) = settings s \<and> timers (step e s) = timers s
   \<and> inflight (step e s) = inflight s \<and> outbox (step e s) = outbox s"
  by (cases e)
     (simp_all add: mouseHandler_def keyHandler_def winHandler_def eventHandler_fields touchHandler_fields)

lemma run_ui_fields:
  "list_all ui_event es \<Longrightarrow>
   uid (run es s) = uid s \<and> settings (run es s) = settings s \<and> timers (run es s) = timers s
   \<and> inflight (run es s) = inflight s \<and> outbox (run es s) = outbox s"
  by (induction es arbitrary: s) (simp_all add: step_ui_fields)

lemma init_postdata_is_init:
  "is_init \<lparr> async = a, postdata = init_postdata pg s, callback = True, url = u, delivered = ok \<rparr>"
  by (simp add: is_init_def init_postdata_def suffix_def)

lemma append_postdata_is_append:
  "is_append_of (uid s) \<lparr> async = a, postdata = append_postdata s, callback = False, url = u, delivered = ok \<rparr>"
  by (simp add: is_append_of_def append_postdata_def suffix_def prefix_def)

lemma timer_cases:
  assumes "i < length (timers s)"
  obtains d where "timers s ! i = SetTimeout d" "SetTimeout d \<in> set (timers s)"
        | d where "timers s ! i = SetInterval d" "SetInterval d \<in> set (timers s)"
  using assms nth_mem [OF assms] by (cases "timers s ! i") auto

lemma set_remove_nth: "x \<in> set (take i xs @ drop (Suc i) xs) \<Longrightarrow> x \<in> set xs"
  by (auto dest: in_set_takeD in_set_dropD)

lemma pre_id_step:
  assumes u: "\<not> truthy (uid s)"
    and t: "\<forall>d. SetInterval d \<notin> set (timers s)"
    and o: "list_all is_init (outbox s)"
    and r: "\<forall>r. e = Response r \<longrightarrow> \<not> truthy (parseInt r)"
  shows "\<not> truthy (uid (step e s)) \<and> (\<forall>d. SetInterval d \<notin> set (timers (step e s)))
         \<and> list_all is_init (outbox (step e s))"
proof (cases e)
  case (Tick i pg ok)
  show ?thesis
  proof (cases "i < length (timers s)")
    case True
    then show ?thesis
    proof (cases rule: timer_cases)
      case (1 d)
      let ?s1 = "s\<lparr> timers := take i (timers s) @ drop (Suc i) (timers s) \<rparr>"
      have st: "step e s = initNewData ok pg True ?s1"
        using Tick True 1(1) by simp
      have "\<forall>d. SetInterval d \<notin> set (timers ?s1)"
        using t by (auto dest: in_set_takeD in_set_dropD)
      with u o show ?thesis
        unfolding st by (simp add: initNewData_fields init_postdata_is_init)
    next
      case (2 d)
      with t show ?thesis by simp
    qed
  next
    case False
    with Tick u t o show ?thesis by simp
  qed
next
  case (Response x)
  with r have "\<not> truthy (parseInt x)" by simp
  with Response u t o show ?thesis by (simp add: setUserId_fields)
next
  case (Unload pg ok)
  with u t o show ?thesis by (simp add: flush_fields init_postdata_is_init)
qed (use u t o in \<open>simp_all add: mouseHandler_def keyHandler_def winHandler_def
      eventHandler_fields touchHandler_fields\<close>)

lemma pre_id_run:
  assumes "\<not> truthy (uid s)" "\<forall>d. SetInterval d \<notin> set (timers s)" "list_all is_init (outbox s)"
    "\<forall>r. Response r \<in> set es \<longrightarrow> \<not> truthy (parseInt r)"
  shows "\<not> truthy (uid (run es s)) \<and> (\<forall>d. SetInterval d \<notin> set (timers (run es s)))
         \<and> list_all is_init (outbox (run es s))"
  using assms
proof (induction es arbitrary: s)
  case Nil
  then show ?case by simp
next
  case (Cons e es)
  have "\<forall>r. e = Response r \<longrightarrow> \<not> truthy (parseInt r)" using Cons.prems(4) by auto
  from pre_id_step [OF Cons.prems(1-3) this] Cons.prems(4) show ?case
    by (simp add: Cons.IH)
qed

lemma outbox_step_prefix: "prefix (outbox s) (outbox (step e s))"
proof (cases e)
  case (Tick i pg ok)
  then show ?thesis
    by (cases "timers s ! i") (simp_all add: initNewData_fields appendData_fields)
next
  case (Response r)
  then show ?thesis by (simp add: setUserId_fields)
next
  case (Unload pg ok)
  then show ?thesis by (simp add: flush_fields)
qed (simp_all add: mouseHandler_def keyHandler_def winHandler_def eventHandler_fields touchHandler_fields)

lemma outbox_run_prefix: "prefix (outbox s) (outbox (run es s))"
proof (induction es arbitrary: s)
  case Nil
  then show ?case by simp
next
  case (Cons e es)
  have "prefix (outbox s) (outbox (step e s))" by (rule outbox_step_prefix)
  also have "prefix (outbox (step e s)) (outbox (run es (step e s)))" by (rule Cons.IH)
  finally show ?case by simp
qed

lemma init_postdata_timers:
  "init_postdata pg (s\<lparr> timers := ts \<rparr>) = init_postdata pg s"
  by (simp add: init_postdata_def)

lemma step_Tick_fields:
  "uid (step (Tick i pg ok) s) = uid s"
  "settings (step (Tick i pg ok) s) = settings s"
  "timers (step (Tick i pg ok) s) =
     (if i < length (timers s)
      then (case timers s ! i of SetTimeout d \<Rightarrow> take i (timers s) @ drop (Suc i) (timers s)
            | SetInterval d \<Rightarrow> timers s)
      else timers s)"
  "inflight (step (Tick i pg ok) s) =
     (if i < length (timers s)
      then (case timers s ! i of SetTimeout d \<Rightarrow> Suc (inflight s) | SetInterval d \<Rightarrow> inflight s)
      else inflight s)"
  "info (step (Tick i pg ok) s) = (if i < length (timers s) then [] else info s)"
  "outbox (step (Tick i pg ok) s) =
     (if i < length (timers s)
      then outbox s @ [\<lparr> async = True,
                         postdata = (case timers s ! i of SetTimeout d \<Rightarrow> init_postdata pg s
                                     | SetInterval d \<Rightarrow> append_postdata s),
                         callback = (case timers s ! i of SetTimeout d \<Rightarrow> True | SetInterval d \<Rightarrow> False),
                         url = postServer (settings s), delivered = ok \<rparr>]
      else outbox s)"
  by (simp_all add: initNewData_fields appendData_fields init_postdata_timers split: timer.splits)

lemma step_Response_fields:
  "uid (step (Response r) s) = (if 0 < inflight s then parseInt r else uid s)"
  "settings (step (Response r) s) = settings s"
  "timers (step (Response r) s) =
     (if 0 < inflight s \<and> truthy (parseInt r)
      then timers s @ [SetInterval (postInterval (settings s) * 1000)] else timers s)"
  "inflight (step (Response r) s) = inflight s - 1"
  "info (step (Response r) s) = info s"
  "outbox (step (Response r) s) = outbox s"
  by (simp_all add: setUserId_fields)

lemma step_Unload_fields:
  "uid (step (Unload pg ok) s) = uid s"
  "settings (step (Unload pg ok) s) = settings s"
  "timers (step (Unload pg ok) s) = timers s"
  "inflight (step (Unload pg ok) s) = (if truthy (uid s) then inflight s else Suc (inflight s))"
  "info (step (Unload pg ok) s) = []"
  "outbox (step (Unload pg ok) s) =
     outbox s @ [\<lparr> async = False,
                    postdata = (if truthy (uid s) then append_postdata s else init_postdata pg s),
                    callback = (\<not> truthy (uid s)),
                    url = postServer (settings s), delivered = ok \<rparr>]"
  by (simp_all add: flush_fields)

lemma step_Mouse_fields:
  "uid (step (Mouse pg e t) s) = uid s"
  "settings (step (Mouse pg e t) s) = settings s"
  "timers (step (Mouse pg e t) s) = timers s"
  "inflight (step (Mouse pg e t) s) = inflight s"
  "outbox (step (Mouse pg e t) s) = outbox s"
  "info (step (Mouse pg e t) s) = info (eventHandler pg e t s)"
  by (simp_all add: mouseHandler_def eventHandler_fields)

lemmas step_fields = step_Tick_fields step_Response_fields step_Unload_fields step_Mouse_fields

text \<open>
  As long as no init response with a truthy id has been processed, \<^verbatim>\<open>uid\<close> is falsy and
  every request handed to the transport is an init request: it carries the callback and
  ends in \<^verbatim>\<open>action=init\<close>. These requests stay the first ones of the visit however it
  goes on.
\<close>

lemma no_append_before_nonzero_id:
  assumes "\<forall>r. Response r \<in> set pre \<longrightarrow> \<not> truthy (parseInt r)"
  shows "list_all is_init (outbox (visit loaded cfg pre))
         \<and> \<not> truthy (uid (visit loaded cfg pre))
         \<and> prefix (outbox (visit loaded cfg pre)) (outbox (visit loaded cfg (pre @ post)))"
proof -
  let ?s = "record_fn cfg (TrackUI loaded)"
  have "\<not> truthy (uid ?s)" "\<forall>d. SetInterval d \<notin> set (timers ?s)" "list_all is_init (outbox ?s)"
    by (simp_all add: record_fn_fields TrackUI_def)
  from pre_id_run [OF this assms] show ?thesis
    by (simp add: visit_def run_append outbox_run_prefix)
qed

lemma est_step:
  assumes u: "truthy (uid s)" and f: "inflight s = 0" and t: "\<forall>d. SetTimeout d \<notin> set (timers s)"
  shows "uid (step e s) = uid s \<and> inflight (step e s) = 0
         \<and> (\<forall>d. SetTimeout d \<notin> set (timers (step e s)))
         \<and> (\<exists>qs. outbox (step e s) = outbox s @ qs \<and> list_all (is_append_of (uid s)) qs)"
proof (cases e)
  case (Tick i pg ok)
  show ?thesis
  proof (cases "i < length (timers s)")
    case True
    then show ?thesis
    proof (cases rule: timer_cases)
      case (1 d)
      with t show ?thesis by simp
    next
      case (2 d)
      have st: "step e s = appendData ok True s"
        using Tick True 2(1) by simp
      show ?thesis
        unfolding st using u f t by (simp add: appendData_fields append_postdata_is_append)
    qed
  next
    case False
    with Tick u f t show ?thesis by simp
  qed
next
  case (Response r)
  with u f t show ?thesis by simp
next
  case (Unload pg ok)
  with u f t show ?thesis by (simp add: flush_fields append_postdata_is_append)
qed (use u f t in \<open>simp_all add: mouseHandler_def keyHandler_def winHandler_def
      eventHandler_fields touchHandler_fields\<close>)

lemma est_run:
  assumes "truthy (uid s)" "inflight s = 0" "\<forall>d. SetTimeout d \<notin> set (timers s)"
  shows "uid (run es s) = uid s
         \<and> (\<exists>qs. outbox (run es s) = outbox s @ qs \<and> list_all (is_append_of (uid s)) qs)"
  using assms
proof (induction es arbitrary: s)
  case Nil
  then show ?case by simp
next
  case (Cons e es)
  from est_step [OF Cons.prems, of e]
  obtain qs where s1: "uid (step e s) = uid s" "inflight (step e s) = 0"
      "\<forall>d. SetTimeout d \<notin> set (timers (step e s))"
      "outbox (step e s) = outbox s @ qs" "list_all (is_append_of (uid s)) qs"
    by blast
  from Cons.IH [of "step e s"] s1 Cons.prems(1)
  obtain rs where s2: "uid (run es (step e s)) = uid s"
      "outbox (run es (step e s)) = outbox (step e s) @ rs" "list_all (is_append_of (uid s)) rs"
    by auto
  have "outbox (run (e # es) s) = outbox s @ (qs @ rs)" "list_all (is_append_of (uid s)) (qs @ rs)"
    using s1 s2 by simp_all
  with s2(1) show ?case by (metis run.simps(2))
qed

lemma step_uid:
  "(\<forall>r. e \<noteq> Response r) \<Longrightarrow> uid (step e s) = uid s"
proof (cases e)
  case (Tick i pg ok)
  then show ?thesis
    by (cases "timers s ! i") (simp_all add: initNewData_fields appendData_fields)
next
  case (Unload pg ok)
  then show ?thesis by (simp add: flush_fields)
qed (simp_all add: mouseHandler_def keyHandler_def winHandler_def eventHandler_fields touchHandler_fields)

text \<open>
  No timer tick, flush or listener writes \<^verbatim>\<open>uid\<close>; the callback of an init response is
  the only writer. Once \<^verbatim>\<open>uid\<close> is truthy with no init request in flight and the deferred
  timeout gone, no callback can run any more and \<^verbatim>\<open>uid\<close> keeps its value.
\<close>

lemma uid_changed_only_by_response:
  "((\<forall>r. e \<noteq> Response r) \<longrightarrow> uid (step e s) = uid s)
   \<and> uid (step (Response r) s) = (if 0 < inflight s then parseInt r else uid s)
   \<and> (truthy (uid s) \<and> inflight s = 0 \<and> (\<forall>d. SetTimeout d \<notin> set (timers s))
        \<longrightarrow> uid (run es s) = uid s)"
  using step_uid [of e s] est_run [of s es] by (simp add: setUserId_fields)

text \<open>
  An init response that parses to a non-zero \<open>n\<close> sets \<^verbatim>\<open>uid\<close> to \<open>n\<close> and arms an interval
  of \<^verbatim>\<open>postInterval*1000\<close> milliseconds; a tick of that interval sends an asynchronous
  append request with that \<^verbatim>\<open>uid\<close> and the buffer, and leaves the interval armed. When
  this was the only init request in flight and the deferred timeout has fired, every
  request sent from then on is an append request carrying it.
\<close>

lemma nonzero_response_establishes:
  assumes "parseInt r = Num n" "n \<noteq> 0" "0 < inflight s"
  shows "uid (step (Response r) s) = Num n
     \<and> timers (step (Response r) s) = timers s @ [SetInterval (postInterval (settings s) * 1000)]
     \<and> outbox (step (Tick (length (timers s)) pg ok) (step (Response r) s)) =
         outbox s @ [\<lparr> async = True,
                        postdata = ''uid='' @ string_of_jsnum (Num n) @ ''&info='' @ join_comma (info s)
                                   @ ''&action=append'',
                        callback = False, url = postServer (settings s), delivered = ok \<rparr>]
     \<and> timers (step (Tick (length (timers s)) pg ok) (step (Response r) s)) = timers (step (Response r) s)
     \<and> (inflight s = 1 \<and> (\<forall>d. SetTimeout d \<notin> set (timers s)) \<longrightarrow>
          uid (run es (step (Response r) s)) = Num n
          \<and> prefix (outbox s) (outbox (run es (step (Response r) s)))
          \<and> list_all (is_append_of (Num n))
               (drop (length (outbox s)) (outbox (run es (step (Response r) s)))))"
proof -
  let ?s' = "step (Response r) s"
  have f: "uid ?s' = Num n" "timers ?s' = timers s @ [SetInterval (postInterval (settings s) * 1000)]"
    "inflight ?s' = inflight s - 1" "outbox ?s' = outbox s" "info ?s' = info s" "settings ?s' = settings s"
    using assms by (simp_all add: step_Response_fields del: step.simps)
  have t: "outbox (step (Tick (length (timers s)) pg ok) ?s') =
         outbox s @ [\<lparr> async = True,
                        postdata = ''uid='' @ string_of_jsnum (Num n) @ ''&info='' @ join_comma (info s)
                                   @ ''&action=append'',
                        callback = False, url = postServer (settings s), delivered = ok \<rparr>]"
    "timers (step (Tick (length (timers s)) pg ok) ?s') = timers ?s'"
    by (simp_all add: step_Tick_fields f append_postdata_def del: step.simps)
  have c: "uid (run es ?s') = Num n \<and> prefix (outbox s) (outbox (run es ?s'))
          \<and> list_all (is_append_of (Num n)) (drop (length (outbox s)) (outbox (run es ?s')))"
    if h: "inflight s = 1" "\<forall>d. SetTimeout d \<notin> set (timers s)"
  proof -
    have "truthy (uid ?s')" "inflight ?s' = 0" "\<forall>d. SetTimeout d \<notin> set (timers ?s')"
      using f h assms(2) by simp_all
    from est_run [OF this, of es] obtain qs where
      q: "uid (run es ?s') = uid ?s'" "outbox (run es ?s') = outbox ?s' @ qs"
         "list_all (is_append_of (uid ?s')) qs"
      by blast
    from q(2) f(4) have "outbox (run es ?s') = outbox s @ qs" by simp
    then have "drop (length (outbox s)) (outbox (run es ?s')) = qs"
      "prefix (outbox s) (outbox (run es ?s'))"
      by simp_all
    with q f(1) show ?thesis by simp
  qed
  from f(1,2) t c show ?thesis by blast
qed

lemma one_init_step:
  assumes j: "(inflight s = 0 \<and> (\<exists>d. timers s = [SetTimeout d]))
              \<or> (inflight s \<le> 1 \<and> (\<forall>d. SetTimeout d \<notin> set (timers s)))"
    and e: "\<forall>pg ok. e \<noteq> Unload pg ok"
  shows "(inflight (step e s) = 0 \<and> (\<exists>d. timers (step e s) = [SetTimeout d]))
         \<or> (inflight (step e s) \<le> 1 \<and> (\<forall>d. SetTimeout d \<notin> set (timers (step e s))))"
proof (cases e)
  case (Tick i pg ok)
  from j show ?thesis
  proof
    assume a: "inflight s = 0 \<and> (\<exists>d. timers s = [SetTimeout d])"
    then obtain d where d: "timers s = [SetTimeout d]" by blast
    show ?thesis
      using a d Tick by (cases i) (simp_all add: step_Tick_fields del: step.simps)
  next
    assume a: "inflight s \<le> 1 \<and> (\<forall>d. SetTimeout d \<notin> set (timers s))"
    show ?thesis
    proof (cases "i < length (timers s)")
      case True
      then show ?thesis
      proof (cases rule: timer_cases)
        case (1 d)
        with a show ?thesis by simp
      next
        case (2 d)
        with a True Tick show ?thesis by (simp add: step_Tick_fields del: step.simps)
      qed
    next
      case False
      with a Tick show ?thesis by simp
    qed
  qed
next
  case (Response r)
  from j show ?thesis
  proof
    assume "inflight s = 0 \<and> (\<exists>d. timers s = [SetTimeout d])"
    with Response show ?thesis by simp
  next
    assume "inflight s \<le> 1 \<and> (\<forall>d. SetTimeout d \<notin> set (timers s))"
    with Response show ?thesis by (simp add: step_Response_fields del: step.simps)
  qed
next
  case (Unload pg ok)
  with e show ?thesis by blast
qed (use j in \<open>simp_all add: mouseHandler_def keyHandler_def winHandler_def
      eventHandler_fields touchHandler_fields\<close>)

lemma one_init_run:
  assumes "(inflight s = 0 \<and> (\<exists>d. timers s = [SetTimeout d]))
           \<or> (inflight s \<le> 1 \<and> (\<forall>d. SetTimeout d \<notin> set (timers s)))"
    and "\<forall>pg ok. Unload pg ok \<notin> set es"
  shows "(inflight (run es s) = 0 \<and> (\<exists>d. timers (run es s) = [SetTimeout d]))
         \<or> (inflight (run es s) \<le> 1 \<and> (\<forall>d. SetTimeout d \<notin> set (timers (run es s))))"
  using assms
proof (induction es arbitrary: s)
  case Nil
  then show ?case by simp
next
  case (Cons e es)
  have "\<forall>pg ok. e \<noteq> Unload pg ok" using Cons.prems(2) by auto
  from one_init_step [OF Cons.prems(1) this]
  have j: "(inflight (step e s) = 0 \<and> (\<exists>d. timers (step e s) = [SetTimeout d]))
         \<or> (inflight (step e s) \<le> 1 \<and> (\<forall>d. SetTimeout d \<notin> set (timers (step e s))))" .
  have "\<forall>pg ok. Unload pg ok \<notin> set es" using Cons.prems(2) by auto
  from Cons.IH [OF j this] show ?case by (simp del: step.simps)
qed

text \<open>
  Where the unload hook does not run before the id arrives, the session behaves as the
  spec has it. Let \<open>pre\<close> be steps without the hook, and let a response that parses to a
  truthy id be delivered to the init request then in flight. Up to there every request is
  an init request. From there on, whatever the steps \<open>es\<close>, the hook included, \<^verbatim>\<open>uid\<close> is
  that id and every request is an append request carrying it.
\<close>

lemma session_without_early_hook:
  assumes h: "\<forall>pg ok. Unload pg ok \<notin> set pre"
    and z: "\<forall>r. Response r \<in> set pre \<longrightarrow> \<not> truthy (parseInt r)"
    and f: "0 < inflight (visit loaded cfg pre)"
    and r: "truthy (parseInt r)"
  shows "list_all is_init (outbox (visit loaded cfg pre))
     \<and> uid (visit loaded cfg (pre @ Response r # es)) = parseInt r
     \<and> prefix (outbox (visit loaded cfg pre)) (outbox (visit loaded cfg (pre @ Response r # es)))
     \<and> list_all (is_append_of (parseInt r))
          (drop (length (outbox (visit loaded cfg pre))) (outbox (visit loaded cfg (pre @ Response r # es))))"
proof -
  define s0 where "s0 = record_fn cfg (TrackUI loaded)"
  define s where "s = run pre s0"
  define s' where "s' = step (Response r) s"
  have v: "visit loaded cfg pre = s" "visit loaded cfg (pre @ Response r # es) = run es s'"
    by (simp_all add: visit_def s0_def s_def s'_def run_append del: step.simps)
  have i0: "\<not> truthy (uid s0)" "\<forall>d. SetInterval d \<notin> set (timers s0)" "list_all is_init (outbox s0)"
    by (simp_all add: s0_def record_fn_fields TrackUI_def)
  from pre_id_run [OF i0 z] have a: "list_all is_init (outbox s)" by (simp add: s_def)
  have "(inflight s0 = 0 \<and> (\<exists>d. timers s0 = [SetTimeout d]))
        \<or> (inflight s0 \<le> 1 \<and> (\<forall>d. SetTimeout d \<notin> set (timers s0)))"
    by (simp add: s0_def record_fn_fields TrackUI_def)
  from one_init_run [OF this h] f have j: "inflight s = 1" "\<forall>d. SetTimeout d \<notin> set (timers s)"
    unfolding v(1) s_def [symmetric] by auto
  have e: "truthy (uid s')" "inflight s' = 0" "\<forall>d. SetTimeout d \<notin> set (timers s')"
    "uid s' = parseInt r" "outbox s' = outbox s"
    using j r by (simp_all add: s'_def step_Response_fields del: step.simps)
  from est_run [OF e(1-3), of es] obtain qs where
    q: "uid (run es s') = uid s'" "outbox (run es s') = outbox s' @ qs"
       "list_all (is_append_of (uid s')) qs"
    by blast
  from q(2) e(5) have o: "outbox (run es s') = outbox s @ qs" by simp
  then have "drop (length (outbox s)) (outbox (run es s')) = qs"
    "prefix (outbox s) (outbox (run es s'))"
    by simp_all
  with a q(1,3) e(4) show ?thesis unfolding v by simp
qed

text \<open>
  C7. The claim is that the id of an established session never changes for the rest of the
  visit. The code departs from it where the unload hook runs before the deferred timeout
  and the page is not left (a \<^verbatim>\<open>beforeunload\<close> that is cancelled). The init request of
  the hook is answered 42. The timeout, still armed, calls \<^verbatim>\<open>initNewData\<close> although the
  session has an id, and the answer 43 to this second init request replaces the id.
\<close>

theorem second_init_response_changes_uid:
  "uid (visit 0 no_config [Unload page0 True, Response ''42'']) = Num 42
   \<and> uid (visit 0 no_config [Unload page0 True, Response ''42'', Tick 0 page0 True, Response ''43'']) = Num 43"
proof -
  have p: "parseInt ''42'' = Num 42" "parseInt ''43'' = Num 43" by (simp_all add: js_eval)
  show ?thesis
    by (simp add: visit_def step_fields start_fields p del: step.simps)
qed

text \<open>
  C4. The claim is that after an init response with a non-zero id the session has that id
  and every later periodic send is an append request carrying it. The code departs from it
  on the same path as for C7: after the answer 42 to the hook's init request, the send of
  the deferred timeout is an init request (it carries the callback), its answer 43 replaces
  the id and arms a second interval, and the next tick of an interval sends an append
  request with \<^verbatim>\<open>uid=43\<close>.
\<close>

theorem later_response_changes_append_uid:
  "parseInt ''42'' = Num 42
   \<and> uid (visit 0 no_config [Unload page0 True, Response ''42'']) = Num 42
   \<and> callback (last (outbox (visit 0 no_config [Unload page0 True, Response ''42'', Tick 0 page0 True])))
   \<and> timers (visit 0 no_config [Unload page0 True, Response ''42'', Tick 0 page0 True, Response ''43''])
       = [SetInterval 30000, SetInterval 30000]
   \<and> postdata (last (outbox (visit 0 no_config
        [Unload page0 True, Response ''42'', Tick 0 page0 True, Response ''43'', Tick 0 page0 True])))
       = ''uid=43&info=&action=append''"
proof -
  have p: "parseInt ''42'' = Num 42" "parseInt ''43'' = Num 43" by (simp_all add: js_eval)
  have n: "string_of_int 43 = ''43''" by (simp add: js_eval)
  show ?thesis
    by (simp add: visit_def step_fields start_fields p n append_postdata_def del: step.simps)
qed

text \<open>
  C6. The claim is that no append request is sent while the session has no id. The code
  departs from it where the unload hook runs before the deferred timeout and the page is
  not left (a \<^verbatim>\<open>beforeunload\<close> that is cancelled). The init request of the hook is answered
  42 and the interval is armed; the timeout, still armed, sends a second init request,
  which is answered 0, and \<^verbatim>\<open>setUserId\<close> overwrites the id: \<^verbatim>\<open>uid\<close> is 0, the interval is
  still armed, and its next tick sends an append request with \<^verbatim>\<open>uid=0\<close>.
\<close>

theorem append_sent_without_id:
  "uid (visit 0 no_config [Unload page0 True, Response ''42'', Tick 0 page0 True, Response ''0''])
     = Num 0
   \<and> \<not> truthy (uid (visit 0 no_config
         [Unload page0 True, Response ''42'', Tick 0 page0 True, Response ''0'']))
   \<and> timers (visit 0 no_config [Unload page0 True, Response ''42'', Tick 0 page0 True, Response ''0''])
     = [SetInterval 30000]
   \<and> postdata (last (outbox (visit 0 no_config
        [Unload page0 True, Response ''42'', Tick 0 page0 True, Response ''0'', Tick 0 page0 True])))
     = ''uid=0&info=&action=append''
   \<and> \<not> callback (last (outbox (visit 0 no_config
        [Unload page0 True, Response ''42'', Tick 0 page0 True, Response ''0'', Tick 0 page0 True])))"
proof -
  have p: "parseInt ''42'' = Num 42" "parseInt ''0'' = Num 0" by (simp_all add: js_eval)
  have n: "string_of_int 0 = ''0''" by (simp add: js_eval)
  show ?thesis
    by (simp add: visit_def step_fields start_fields p n append_postdata_def del: step.simps)
qed

text \<open>
  C3, as the code has it. The deferred timeout is the only timer that \<^verbatim>\<open>record\<close> arms and
  it fires once. When the response to its init request parses to 0 or \<^verbatim>\<open>NaN\<close>, \<^verbatim>\<open>uid\<close>
  stays falsy and \<^verbatim>\<open>setUserId\<close> arms nothing: no timer is left, no tick sends anything,
  and the init is retried only by the unload hook, whose request is an init request.
\<close>

theorem zero_response_arms_no_timer:
  assumes "list_all ui_event es1" "list_all ui_event es2" "list_all ui_event es3"
    and "\<not> truthy (parseInt r)"
  shows "\<not> truthy (uid (visit loaded cfg (es1 @ [Tick 0 pg ok] @ es2 @ [Response r] @ es3)))
     \<and> timers (visit loaded cfg (es1 @ [Tick 0 pg ok] @ es2 @ [Response r] @ es3)) = []
     \<and> inflight (visit loaded cfg (es1 @ [Tick 0 pg ok] @ es2 @ [Response r] @ es3)) = 0
     \<and> length (outbox (visit loaded cfg (es1 @ [Tick 0 pg ok] @ es2 @ [Response r] @ es3))) = 1
     \<and> step (Tick i pg' ok') (visit loaded cfg (es1 @ [Tick 0 pg ok] @ es2 @ [Response r] @ es3))
         = visit loaded cfg (es1 @ [Tick 0 pg ok] @ es2 @ [Response r] @ es3)
     \<and> outbox (step (Unload pg' ok') (visit loaded cfg (es1 @ [Tick 0 pg ok] @ es2 @ [Response r] @ es3)))
         = outbox (visit loaded cfg (es1 @ [Tick 0 pg ok] @ es2 @ [Response r] @ es3))
           @ [\<lparr> async = False,
                 postdata = init_postdata pg' (visit loaded cfg (es1 @ [Tick 0 pg ok] @ es2 @ [Response r] @ es3)),
                 callback = True,
                 url = postServer (settings (visit loaded cfg (es1 @ [Tick 0 pg ok] @ es2 @ [Response r] @ es3))),
                 delivered = ok' \<rparr>]"
proof -
  define s0 where "s0 = record_fn cfg (TrackUI loaded)"
  define s1 where "s1 = run es1 s0"
  define s2 where "s2 = step (Tick 0 pg ok) s1"
  define s3 where "s3 = run es2 s2"
  define s4 where "s4 = step (Response r) s3"
  define s5 where "s5 = run es3 s4"
  have v: "visit loaded cfg (es1 @ [Tick 0 pg ok] @ es2 @ [Response r] @ es3) = s5"
    by (simp add: visit_def run_append s0_def s1_def s2_def s3_def s4_def s5_def del: step.simps)
  obtain d where f0: "timers s0 = [SetTimeout d]" "uid s0 = Num 0" "inflight s0 = 0" "outbox s0 = []"
    by (simp add: s0_def record_fn_fields TrackUI_def)
  have f1: "timers s1 = [SetTimeout d]" "uid s1 = Num 0" "inflight s1 = 0" "outbox s1 = []"
    using run_ui_fields [OF assms(1), of s0] f0 by (simp_all add: s1_def)
  have f2: "timers s2 = []" "uid s2 = Num 0" "inflight s2 = 1" "length (outbox s2) = 1"
    using f1 by (simp_all add: s2_def step_Tick_fields del: step.simps)
  have f3: "timers s3 = []" "uid s3 = Num 0" "inflight s3 = 1" "length (outbox s3) = 1"
    using run_ui_fields [OF assms(2), of s2] f2 by (simp_all add: s3_def)
  have f4: "timers s4 = []" "\<not> truthy (uid s4)" "inflight s4 = 0" "length (outbox s4) = 1"
    using f3 assms(4) by (simp_all add: s4_def step_Response_fields del: step.simps)
  have f5: "timers s5 = []" "\<not> truthy (uid s5)" "inflight s5 = 0" "length (outbox s5) = 1"
    using run_ui_fields [OF assms(3), of s4] f4 by (simp_all add: s5_def)
  have t: "step (Tick i pg' ok') s5 = s5" using f5(1) by simp
  have u: "outbox (step (Unload pg' ok') s5) =
      outbox s5 @ [\<lparr> async = False, postdata = init_postdata pg' s5, callback = True,
                      url = postServer (settings s5), delivered = ok' \<rparr>]"
    using f5(2) by (simp add: step_Unload_fields del: step.simps)
  show ?thesis unfolding v using f5 t u by simp
qed

theorem zero_response_arms_no_timer_witness:
  "list_all ui_event [Mouse page0 click0 100] \<and> list_all ui_event [] \<and> list_all ui_event [Key page0 click0 200]
   \<and> \<not> truthy (parseInt ''0'')
   \<and> timers (visit 0 no_config ([Mouse page0 click0 100] @ [Tick 0 page0 True] @ [] @ [Response ''0'']
              @ [Key page0 click0 200])) = []
   \<and> length (outbox (step (Unload page0 True)
        (visit 0 no_config ([Mouse page0 click0 100] @ [Tick 0 page0 True] @ [] @ [Response ''0'']
              @ [Key page0 click0 200])))) = 2
   \<and> callback (last (outbox (step (Unload page0 True)
        (visit 0 no_config ([Mouse page0 click0 100] @ [Tick 0 page0 True] @ [] @ [Response ''0'']
              @ [Key page0 click0 200])))))"
proof -
  have p: "\<not> truthy (parseInt ''0'')" by (simp add: js_eval)
  have h: "list_all ui_event [Mouse page0 click0 100]" "list_all ui_event []"
    "list_all ui_event [Key page0 click0 200]"
    by simp_all
  show ?thesis
    using zero_response_arms_no_timer [OF h p, where loaded = 0 and cfg = no_config and pg = page0
      and ok = True and pg' = page0 and ok' = True and i = 0]
    by (elim conjE) (simp add: p del: step.simps)
qed

text \<open>
  C3 as stated fails: after the response \<^verbatim>\<open>0\<close> no timer is armed, and a tick sends nothing.
\<close>

theorem zero_response_no_next_tick:
  "uid (visit 0 no_config [Tick 0 page0 True, Response ''0'']) = Num 0
   \<and> timers (visit 0 no_config [Tick 0 page0 True, Response ''0'']) = []
   \<and> length (outbox (visit 0 no_config [Tick 0 page0 True, Response ''0''])) = 1
   \<and> outbox (visit 0 no_config [Tick 0 page0 True, Response ''0'', Tick 0 page0 True])
       = outbox (visit 0 no_config [Tick 0 page0 True, Response ''0''])"
proof -
  have p: "parseInt ''0'' = Num 0" by (simp add: js_eval)
  show ?thesis
    by (simp add: visit_def step_fields start_fields p del: step.simps)
qed

subsection \<open>The unload hook\<close>







end
